(* ===== verification/Prelude.thy ===== *)
theory Prelude
  imports Main "HOL-Library.Word" "HOL-Library.Sublist"
begin

text \<open>
  Shared vocabulary of the development.

  Bytes are 8-bit words.  A Rust \<open>Result\<close> is a sum whose left side is the error.
  Rust's \<open>Poll\<close> is the datatype \<open>poll\<close>.  An \<open>anyhow::Error\<close> is a value of
  \<open>error\<close>: a message made by the \<open>anyhow!\<close> macro or by \<open>context\<close> on an
  \<open>Option\<close>, a context wrapped around another error, or an error of a foreign
  type \<open>'x\<close> that the \<open>?\<close> operator or \<open>into()\<close> converted.

  A call that is awaited on code outside the repository is a function over a
  world \<open>'w\<close>; \<open>io_bind\<close> is the early return of \<open>.await?\<close>.
\<close>

named_theorems io_run \<open>how calls run: for proofs that compute a call step by step\<close>
named_theorems io_ok \<open>when a sequence of calls or results succeeds\<close>

type_synonym byte = "8 word"

section \<open>Results, polls and errors\<close>

datatype 'a poll = Pending | Ready 'a

datatype 'x error =
    Msg string
  | Context string "'x error"
  | Foreign 'x

text \<open>The \<open>?\<close> operator on a \<open>Result\<close>.\<close>

fun result_bind :: "'e + 'a \<Rightarrow> ('a \<Rightarrow> 'e + 'b) \<Rightarrow> 'e + 'b" where
  "result_bind (Inl e) f = Inl e"
| "result_bind (Inr a) f = f a"

text \<open>\<open>Option::context\<close> and \<open>ok_or_else(|| anyhow!(..))\<close>: \<open>None\<close> becomes a message.\<close>

fun ok_or_msg :: "string \<Rightarrow> 'a option \<Rightarrow> 'x error + 'a" where
  "ok_or_msg m None = Inl (Msg m)"
| "ok_or_msg m (Some a) = Inr a"

text \<open>\<open>Result::context\<close>: the error is wrapped.\<close>

fun with_context :: "string \<Rightarrow> 'x + 'a \<Rightarrow> 'x error + 'a" where
  "with_context m (Inl e) = Inl (Context m (Foreign e))"
| "with_context m (Inr a) = Inr a"

text \<open>\<open>into()\<close> applied by \<open>?\<close> to an error that is not yet an \<open>anyhow::Error\<close>.\<close>

fun foreign :: "'x + 'a \<Rightarrow> 'x error + 'a" where
  "foreign (Inl e) = Inl (Foreign e)"
| "foreign (Inr a) = Inr a"

type_synonym ('w, 'x, 'a) io = "'w \<Rightarrow> ('x error + 'a) \<times> 'w"

definition io_return :: "'a \<Rightarrow> ('w, 'x, 'a) io" where
  "io_return a w = (Inr a, w)"

definition io_error :: "'x error \<Rightarrow> ('w, 'x, 'a) io" where
  "io_error e w = (Inl e, w)"

definition io_bind :: "('w, 'x, 'a) io \<Rightarrow> ('a \<Rightarrow> ('w, 'x, 'b) io) \<Rightarrow> ('w, 'x, 'b) io" where
  "io_bind m f w = (case m w of (Inl e, w') \<Rightarrow> (Inl e, w') | (Inr a, w') \<Rightarrow> f a w')"

lemma io_bind_Inr: "m w = (Inr a, w') \<Longrightarrow> io_bind m f w = f a w'"
  by (simp add: io_bind_def)

lemma io_bind_Inl: "m w = (Inl e, w') \<Longrightarrow> io_bind m f w = (Inl e, w')"
  by (simp add: io_bind_def)

lemma io_bind_return [simp]: "io_bind (io_return a) f = f a"
  by (rule ext) (simp add: io_bind_def io_return_def)

lemma io_bind_error [simp]: "io_bind (io_error e) f = io_error e"
  by (rule ext) (simp add: io_bind_def io_error_def)

lemma io_bind_assoc: "io_bind (io_bind m f) g = io_bind m (\<lambda>a. io_bind (f a) g)"
  by (rule ext) (simp add: io_bind_def split: prod.splits sum.splits)

lemma result_bind_eq_Inr [io_ok]: "result_bind r f = Inr b \<longleftrightarrow> (\<exists>a. r = Inr a \<and> f a = Inr b)"
  by (cases r) auto

text \<open>A foreign call whose error \<open>?\<close> converts, and a plain result, as calls.\<close>

definition foreign_io :: "('w \<Rightarrow> ('x + 'a) \<times> 'w) \<Rightarrow> ('w, 'x, 'a) io" where
  "foreign_io m w = (case m w of (r, w') \<Rightarrow> (foreign r, w'))"

definition lift_result :: "'x error + 'a \<Rightarrow> ('w, 'x, 'a) io" where
  "lift_result r w = (r, w)"

declare io_return_def [io_run] io_error_def [io_run] io_bind_def [io_run] foreign_io_def [io_run] lift_result_def [io_run]

text \<open>When a sequence of calls succeeds.\<close>

lemma foreign_eq_Inr [simp]: "foreign r = Inr a \<longleftrightarrow> r = Inr a"
  by (cases r) auto

lemma ok_or_msg_eq_Inr [simp]: "ok_or_msg m r = Inr a \<longleftrightarrow> r = Some a"
  by (cases r) auto

lemma with_context_eq_Inr [simp]: "with_context m r = Inr a \<longleftrightarrow> r = Inr a"
  by (cases r) auto

lemma io_bind_Inr_iff [io_ok]: "io_bind m f w = (Inr b, w') \<longleftrightarrow> (\<exists>a w1. m w = (Inr a, w1) \<and> f a w1 = (Inr b, w'))"
  by (auto simp: io_bind_def split: prod.splits sum.splits)

lemma lift_result_Inr_iff [simp]: "lift_result r w = (Inr a, w') \<longleftrightarrow> r = Inr a \<and> w' = w"
  by (auto simp: lift_result_def)

lemma foreign_io_Inr_iff [simp]: "foreign_io m w = (Inr a, w') \<longleftrightarrow> m w = (Inr a, w')"
  by (auto simp: foreign_io_def split: prod.splits)

lemma io_return_Inr_iff [simp]: "io_return a w = (Inr b, w') \<longleftrightarrow> a = b \<and> w' = w"
  by (auto simp: io_return_def)

lemma map_prod_eq_iff: "map_prod f g p = (a, b) \<longleftrightarrow> (\<exists>x y. p = (x, y) \<and> f x = a \<and> g y = b)"
  by (cases p) auto

section \<open>Lists\<close>

text \<open>
  A checked slice \<open>&xs[a..b]\<close>: \<open>None\<close> is the panic of an index out of range.
\<close>

definition slice :: "'a list \<Rightarrow> nat \<Rightarrow> nat \<Rightarrow> 'a list option" where
  "slice xs a b = (if a \<le> b \<and> b \<le> length xs then Some (take (b - a) (drop a xs)) else None)"

lemma slice_Some: "a \<le> b \<Longrightarrow> b \<le> length xs \<Longrightarrow> slice xs a b = Some (take (b - a) (drop a xs))"
  by (simp add: slice_def)

lemma slice_upto: "b \<le> length xs \<Longrightarrow> slice xs 0 b = Some (take b xs)"
  by (simp add: slice_def)

lemma slice_from: "a \<le> length xs \<Longrightarrow> slice xs a (length xs) = Some (drop a xs)"
  by (simp add: slice_def)

lemma take_Suc_drop:
  "p \<le> i \<Longrightarrow> i < length xs \<Longrightarrow> drop p (take (Suc i) xs) = drop p (take i xs) @ [xs ! i]"
  by (simp add: take_Suc_conv_app_nth)

lemma take_drop_swap: "drop p (take i xs) = take (i - p) (drop p xs)"
  by (simp add: drop_take)

text \<open>The successful values of a list of results.\<close>

fun oks :: "('e + 'a) list \<Rightarrow> 'a list" where
  "oks [] = []"
| "oks (Inl e # rs) = oks rs"
| "oks (Inr a # rs) = a # oks rs"

lemma oks_append [simp]: "oks (xs @ ys) = oks xs @ oks ys"
  by (induction xs rule: oks.induct) auto

lemma oks_map_Inr [simp]: "oks (map Inr xs) = xs"
  by (induction xs) auto

text \<open>Lowering the rank of one element of a list lowers the sum.\<close>

lemma sum_list_update_less:
  "t < length xs \<Longrightarrow> f p < f (xs ! t) \<Longrightarrow> sum_list (map f (xs[t := p])) < (sum_list (map f xs) :: nat)"
proof (induction xs arbitrary: t)
  case (Cons x xs)
  then show ?case by (cases t) auto
qed simp

end
