(* ===== verification/Utf8.thy ===== *)
theory Utf8
  imports Prelude
begin

text \<open>
  The part of Rust's \<open>str\<close> and \<open>String\<close> the code uses.

  A Rust string is the list of its \<open>char\<close>s, a \<open>char\<close> a Unicode scalar value
  (here a natural number).  \<open>str_bytes\<close> is \<open>as_bytes\<close>, \<open>from_utf8\<close> the strict
  decoder (\<open>None\<close> on invalid input), \<open>from_utf8_lossy\<close> the one that puts a
  U+FFFD for every maximal invalid sequence.  Trimming removes the characters
  with the Unicode property White\_Space, as \<open>char::is_whitespace\<close> does.
\<close>

type_synonym uchar = nat

section \<open>Decoding one character\<close>

definition is_cont :: "byte \<Rightarrow> bool" where
  "is_cont b \<longleftrightarrow> 128 \<le> unat b \<and> unat b \<le> 191"

definition low6 :: "byte \<Rightarrow> nat" where
  "low6 b = unat b mod 64"

text \<open>The second byte of a three-byte and of a four-byte sequence.\<close>

definition second3 :: "nat \<Rightarrow> byte \<Rightarrow> bool" where
  "second3 x c \<longleftrightarrow>
     (if x = 224 then 160 \<le> unat c \<and> unat c \<le> 191
      else if x = 237 then 128 \<le> unat c \<and> unat c \<le> 159
      else is_cont c)"

definition second4 :: "nat \<Rightarrow> byte \<Rightarrow> bool" where
  "second4 x c \<longleftrightarrow>
     (if x = 240 then 144 \<le> unat c \<and> unat c \<le> 191
      else if x = 244 then 128 \<le> unat c \<and> unat c \<le> 143
      else is_cont c)"

text \<open>
  One step of the validator: the character, or \<open>None\<close> for an invalid sequence,
  and the bytes after what was consumed.
\<close>

fun decode_one :: "byte \<Rightarrow> byte list \<Rightarrow> uchar option \<times> byte list" where
  "decode_one b bs =
     (let x = unat b in
      if x < 128 then (Some x, bs)
      else if 194 \<le> x \<and> x \<le> 223 then
        (case bs of
           c1 # r1 \<Rightarrow> if is_cont c1 then (Some ((x - 192) * 64 + low6 c1), r1) else (None, bs)
         | [] \<Rightarrow> (None, bs))
      else if 224 \<le> x \<and> x \<le> 239 then
        (case bs of
           c1 # r1 \<Rightarrow>
             if second3 x c1 then
               (case r1 of
                  c2 # r2 \<Rightarrow>
                    if is_cont c2 then (Some ((x - 224) * 4096 + low6 c1 * 64 + low6 c2), r2)
                    else (None, r1)
                | [] \<Rightarrow> (None, r1))
             else (None, bs)
         | [] \<Rightarrow> (None, bs))
      else if 240 \<le> x \<and> x \<le> 244 then
        (case bs of
           c1 # r1 \<Rightarrow>
             if second4 x c1 then
               (case r1 of
                  c2 # r2 \<Rightarrow>
                    if is_cont c2 then
                      (case r2 of
                         c3 # r3 \<Rightarrow>
                           if is_cont c3
                           then (Some ((x - 240) * 262144 + low6 c1 * 4096 + low6 c2 * 64 + low6 c3), r3)
                           else (None, r2)
                       | [] \<Rightarrow> (None, r2))
                    else (None, r1)
                | [] \<Rightarrow> (None, r1))
             else (None, bs)
         | [] \<Rightarrow> (None, bs))
      else (None, bs))"

declare decode_one.simps [simp del]

lemma decode_one_shorter: "length (snd (decode_one b bs)) \<le> length bs"
  by (simp add: decode_one.simps Let_def split: list.split)

lemma decode_one_le: "decode_one b bs = (c, r) \<Longrightarrow> length r < Suc (length bs)"
  using decode_one_shorter [of b bs] by simp

section \<open>Decoding and encoding\<close>

definition replacement_char :: uchar where
  "replacement_char = 65533"

function from_utf8_lossy :: "byte list \<Rightarrow> uchar list" where
  "from_utf8_lossy [] = []"
| "from_utf8_lossy (b # bs) =
     (case decode_one b bs of
        (Some c, r) \<Rightarrow> c # from_utf8_lossy r
      | (None, r) \<Rightarrow> replacement_char # from_utf8_lossy r)"
  by pat_completeness auto
termination
  by (relation "measure length") (auto dest: decode_one_le [OF sym])

function from_utf8 :: "byte list \<Rightarrow> uchar list option" where
  "from_utf8 [] = Some []"
| "from_utf8 (b # bs) =
     (case decode_one b bs of
        (Some c, r) \<Rightarrow> map_option ((#) c) (from_utf8 r)
      | (None, r) \<Rightarrow> None)"
  by pat_completeness auto
termination
  by (relation "measure length") (auto dest: decode_one_le [OF sym])

definition byte_of :: "nat \<Rightarrow> byte" where
  "byte_of n = word_of_nat n"

definition encode_char :: "uchar \<Rightarrow> byte list" where
  "encode_char c =
     (if c < 128 then [byte_of c]
      else if c < 2048 then [byte_of (192 + c div 64), byte_of (128 + c mod 64)]
      else if c < 65536 then
        [byte_of (224 + c div 4096), byte_of (128 + c div 64 mod 64), byte_of (128 + c mod 64)]
      else
        [byte_of (240 + c div 262144), byte_of (128 + c div 4096 mod 64),
         byte_of (128 + c div 64 mod 64), byte_of (128 + c mod 64)])"

definition str_bytes :: "uchar list \<Rightarrow> byte list" where
  "str_bytes s = concat (map encode_char s)"

text \<open>The Unicode scalar values: the code points that are not surrogates.\<close>

definition scalar :: "uchar \<Rightarrow> bool" where
  "scalar c \<longleftrightarrow> c < 55296 \<or> (57344 \<le> c \<and> c < 1114112)"

lemma str_bytes_simps [simp]:
  "str_bytes [] = []"
  "str_bytes (c # s) = encode_char c @ str_bytes s"
  "str_bytes (s @ t) = str_bytes s @ str_bytes t"
  by (simp_all add: str_bytes_def)

lemma unat_byte_of [simp]: "n < 256 \<Longrightarrow> unat (byte_of n) = n"
  by (simp add: byte_of_def unat_of_nat)

lemma add_128_mod_64: "(128 + n) mod 64 = (n mod 64 :: nat)"
proof -
  have "(128 + n) mod 64 = (n + 2 * 64) mod (64::nat)" by (simp add: add.commute)
  then show ?thesis by (simp only: mod_mult_self1)
qed

lemma low6_byte_of [simp]: "n < 64 \<Longrightarrow> low6 (byte_of (128 + n)) = n"
  by (simp add: low6_def add_128_mod_64)

lemma is_cont_byte_of [simp]: "n < 64 \<Longrightarrow> is_cont (byte_of (128 + n))"
  by (simp add: is_cont_def)

text \<open>A code point written with two or three base-64 digits below the leading part.\<close>

lemma div_64_step: "(n::nat) div k = n div (k * 64) * 64 + n div k mod 64"
proof -
  have "n div k = n div k div 64 * 64 + n div k mod 64" by simp
  then show ?thesis by (simp only: div_mult2_eq)
qed

lemma digits64_3: "(c::nat) = c div 4096 * 4096 + c div 64 mod 64 * 64 + c mod 64"
proof -
  have "c = c div 64 * 64 + c mod 64" by simp
  moreover have "c div 64 = c div 4096 * 64 + c div 64 mod 64"
    using div_64_step [of c 64] by (simp only: numeral_times_numeral mult_num_simps add_num_simps)
  moreover have "c = q * 64 + m \<Longrightarrow> q = a * 64 + b \<Longrightarrow> c = a * 4096 + b * 64 + m" for q m a b
    by simp
  ultimately show ?thesis by blast
qed

lemma digits64_4:
  "(c::nat) = c div 262144 * 262144 + c div 4096 mod 64 * 4096 + c div 64 mod 64 * 64 + c mod 64"
proof -
  have "c div 4096 = c div 262144 * 64 + c div 4096 mod 64"
    using div_64_step [of c 4096] by (simp only: numeral_times_numeral mult_num_simps add_num_simps)
  moreover have "c = q * 4096 + b * 64 + m \<Longrightarrow> q = a * 64 + d \<Longrightarrow>
      c = a * 262144 + d * 4096 + b * 64 + m" for q a b d m
    by simp
  ultimately show ?thesis using digits64_3 [of c] by blast
qed

section \<open>The decoder inverts the encoder\<close>

lemma decode_one_1: "c < 128 \<Longrightarrow> decode_one (byte_of c) r = (Some c, r)"
  by (simp add: decode_one.simps)

lemma decode_one_2:
  assumes "128 \<le> c" and "c < 2048"
  shows "decode_one (byte_of (192 + c div 64)) (byte_of (128 + c mod 64) # r) = (Some c, r)"
proof -
  have "c div 64 < 32" and "2 \<le> c div 64" using assms by linarith+
  then show ?thesis by (simp add: decode_one.simps Let_def)
qed

lemma decode_one_3:
  assumes "2048 \<le> c" and "c < 65536" and "scalar c"
  shows "decode_one (byte_of (224 + c div 4096))
           (byte_of (128 + c div 64 mod 64) # byte_of (128 + c mod 64) # r) = (Some c, r)"
proof -
  let ?a = "c div 4096" and ?b = "c div 64 mod 64"
  have a: "?a < 16" using assms by linarith
  have c: "c = ?a * 4096 + ?b * 64 + c mod 64" by (rule digits64_3)
  have b: "?b < 64" by simp
  have e0: "?a = 0 \<Longrightarrow> 32 \<le> ?b" using assms(1) c by linarith
  have ed: "?a = 13 \<Longrightarrow> ?b \<le> 31" using assms(2,3) c b unfolding scalar_def by linarith
  have "second3 (224 + ?a) (byte_of (128 + ?b))"
    using b e0 ed by (auto simp: second3_def)
  then show ?thesis
    using a c b by (simp add: decode_one.simps Let_def)
qed

lemma decode_one_4:
  assumes "65536 \<le> c" and "scalar c"
  shows "decode_one (byte_of (240 + c div 262144))
           (byte_of (128 + c div 4096 mod 64) # byte_of (128 + c div 64 mod 64)
              # byte_of (128 + c mod 64) # r) = (Some c, r)"
proof -
  let ?a = "c div 262144" and ?b = "c div 4096 mod 64" and ?d = "c div 64 mod 64"
  have top: "c < 1114112" using assms by (simp add: scalar_def)
  then have a: "?a < 5" by linarith
  have c: "c = ?a * 262144 + ?b * 4096 + ?d * 64 + c mod 64" by (rule digits64_4)
  have b: "?b < 64" and d: "?d < 64" by simp_all
  have f0: "?a = 0 \<Longrightarrow> 16 \<le> ?b" using assms(1) c d by linarith
  have f4: "?a = 4 \<Longrightarrow> ?b \<le> 15" using top c by linarith
  have "second4 (240 + ?a) (byte_of (128 + ?b))"
    using b f0 f4 by (auto simp: second4_def)
  then show ?thesis
    using a c b d by (simp add: decode_one.simps Let_def)
qed

lemma decode_encode_char:
  assumes "scalar c"
  obtains b bs where "encode_char c = b # bs" and "\<And>r. decode_one b (bs @ r) = (Some c, r)"
proof -
  have "\<exists>b bs. encode_char c = b # bs \<and> (\<forall>r. decode_one b (bs @ r) = (Some c, r))"
    using assms decode_one_1 decode_one_2 decode_one_3 decode_one_4
    by (simp add: encode_char_def)
  then show ?thesis using that by blast
qed

lemma from_utf8_lossy_encode:
  "scalar c \<Longrightarrow> from_utf8_lossy (encode_char c @ r) = c # from_utf8_lossy r"
  by (erule decode_encode_char) simp

lemma from_utf8_encode:
  "scalar c \<Longrightarrow> from_utf8 (encode_char c @ r) = map_option ((#) c) (from_utf8 r)"
  by (erule decode_encode_char) simp

lemma from_utf8_str_bytes: "\<forall>c \<in> set s. scalar c \<Longrightarrow> from_utf8 (str_bytes s) = Some s"
  by (induction s) (simp_all add: from_utf8_encode)

lemma from_utf8_lossy_str_bytes: "\<forall>c \<in> set s. scalar c \<Longrightarrow> from_utf8_lossy (str_bytes s) = s"
  by (induction s) (simp_all add: from_utf8_lossy_encode)

text \<open>On valid input the lossy decoder agrees with the strict one.\<close>

lemma from_utf8_imp_lossy: "from_utf8 bs = Some s \<Longrightarrow> from_utf8_lossy bs = s"
  by (induction bs arbitrary: s rule: from_utf8.induct)
    (auto split: prod.splits option.splits)

section \<open>The encoder inverts the decoder\<close>

lemma byte_of_unat [simp]: "byte_of (unat b) = b"
  by (simp add: byte_of_def)

lemma cont_low6:
  assumes "is_cont c"
  obtains k where "k < 64" and "low6 c = k" and "byte_of (128 + k) = c"
proof -
  define k where "k = unat c - 128"
  then have k: "unat c = 128 + k" "k < 64" using assms by (auto simp: is_cont_def)
  then have "low6 c = k" by (simp add: low6_def add_128_mod_64)
  moreover have "byte_of (128 + k) = c" using k byte_of_unat [of c] by simp
  ultimately show ?thesis using that k by blast
qed

lemma second3_cont: "second3 x c \<Longrightarrow> is_cont c"
  by (auto simp: second3_def is_cont_def split: if_splits)

lemma second4_cont: "second4 x c \<Longrightarrow> is_cont c"
  by (auto simp: second4_def is_cont_def split: if_splits)

lemma undigits64_2:
  assumes "d < (64::nat)"
  shows "(a * 64 + d) div 64 = a" and "(a * 64 + d) mod 64 = d"
  using assms by simp_all

lemma undigits64_3:
  assumes "b < (64::nat)" and "d < 64"
  shows "(a * 4096 + b * 64 + d) div 4096 = a" and "(a * 4096 + b * 64 + d) div 64 = a * 64 + b"
    and "(a * 4096 + b * 64 + d) mod 64 = d"
proof -
  have c: "a * 4096 + b * 64 + d = (a * 64 + b) * 64 + d" by simp
  show "(a * 4096 + b * 64 + d) div 64 = a * 64 + b" "(a * 4096 + b * 64 + d) mod 64 = d"
    by (simp_all only: c undigits64_2 [OF assms(2)])
  then have "(a * 4096 + b * 64 + d) div 4096 = (a * 64 + b) div 64"
    using div_mult2_eq [of "a * 4096 + b * 64 + d" 64 64] by simp
  then show "(a * 4096 + b * 64 + d) div 4096 = a"
    by (simp only: undigits64_2 [OF assms(1)])
qed

lemma undigits64_4:
  assumes "b < (64::nat)" and "d < 64" and "e < 64"
  shows "(a * 262144 + b * 4096 + d * 64 + e) div 262144 = a"
    and "(a * 262144 + b * 4096 + d * 64 + e) div 4096 = a * 64 + b"
    and "(a * 262144 + b * 4096 + d * 64 + e) div 64 = (a * 64 + b) * 64 + d"
    and "(a * 262144 + b * 4096 + d * 64 + e) mod 64 = e"
proof -
  have c: "a * 262144 + b * 4096 + d * 64 + e = (a * 64 + b) * 4096 + d * 64 + e" by simp
  show "(a * 262144 + b * 4096 + d * 64 + e) div 4096 = a * 64 + b"
      "(a * 262144 + b * 4096 + d * 64 + e) div 64 = (a * 64 + b) * 64 + d"
      "(a * 262144 + b * 4096 + d * 64 + e) mod 64 = e"
    unfolding c using undigits64_3 [OF assms(2,3)] by blast+
  then have "(a * 262144 + b * 4096 + d * 64 + e) div 262144 = (a * 64 + b) div 64"
    using div_mult2_eq [of "a * 262144 + b * 4096 + d * 64 + e" 4096 64] by simp
  then show "(a * 262144 + b * 4096 + d * 64 + e) div 262144 = a"
    by (simp only: undigits64_2 [OF assms(1)])
qed

lemma encode_decode_two:
  assumes "decode_one b bs = (Some c, r)" and "x = unat b" and range: "194 \<le> x \<and> x \<le> 223"
  shows "encode_char c @ r = b # bs \<and> scalar c"
proof -
  have b: "byte_of x = b" by (simp add: assms(2))
  note dec = assms(1) [unfolded decode_one.simps, folded assms(2), unfolded Let_def]
  define a where "a = x - 192"
  then have x: "x = 192 + a" "2 \<le> a" "a < 32" using range by auto
  have "\<not> x < 128" using range by linarith
  then obtain c1 where bs: "bs = c1 # r" "is_cont c1" "c = a * 64 + low6 c1"
    using dec range by (simp add: a_def split: list.splits if_splits)
  obtain k where k: "k < 64" "low6 c1 = k" "byte_of (128 + k) = c1" by (rule cont_low6 [OF bs(2)])
  have c: "c = a * 64 + k" using bs(3) k(2) by simp
  have dm: "c div 64 = a" "c mod 64 = k" unfolding c using undigits64_2 [OF k(1)] by simp_all
  have "\<not> c < 128" "c < 2048" using c x k(1) by linarith+
  then show ?thesis using dm bs(1) k(3) b x by (simp add: encode_char_def scalar_def)
qed

lemma encode_decode_three:
  assumes "decode_one b bs = (Some c, r)" and "x = unat b" and range: "224 \<le> x \<and> x \<le> 239"
  shows "encode_char c @ r = b # bs \<and> scalar c"
proof -
  have b: "byte_of x = b" by (simp add: assms(2))
  note dec = assms(1) [unfolded decode_one.simps, folded assms(2), unfolded Let_def]
  define a where "a = x - 224"
  then have x: "x = 224 + a" "a < 16" using range by auto
  have n: "\<not> x < 128" "\<not> (194 \<le> x \<and> x \<le> 223)" using range by linarith+
  obtain c1 c2 where bs: "bs = c1 # c2 # r" "second3 x c1" "is_cont c2" "c = a * 4096 + low6 c1 * 64 + low6 c2"
    using dec range n by (simp add: a_def split: list.splits if_splits)
  obtain k where k: "k < 64" "low6 c1 = k" "byte_of (128 + k) = c1"
    by (rule cont_low6 [OF second3_cont [OF bs(2)]])
  obtain l where l: "l < 64" "low6 c2 = l" "byte_of (128 + l) = c2" by (rule cont_low6 [OF bs(3)])
  have c: "c = a * 4096 + k * 64 + l" using bs(4) k(2) l(2) by simp
  have dm: "c div 4096 = a" "c div 64 = a * 64 + k" "c mod 64 = l"
    unfolding c using undigits64_3 [OF k(1) l(1)] by simp_all
  have u: "unat c1 = 128 + k" using k(3) unat_byte_of [of "128 + k"] k(1) by simp
  have lo: "a = 0 \<Longrightarrow> 32 \<le> k" and hi: "a = 13 \<Longrightarrow> k < 32"
    using bs(2) u by (auto simp: second3_def x)
  have "\<not> c < 128" "\<not> c < 2048" "c < 65536" using c x lo k(1) l(1) by (cases "a = 0"; simp)+
  moreover have "c < 55296 \<or> 57344 \<le> c"
    using c hi k(1) l(1) by (cases "a = 13"; cases "a < 13"; simp)
  ultimately show ?thesis using dm bs(1) k l(3) b x by (simp add: encode_char_def scalar_def)
qed

lemma encode_decode_four:
  assumes "decode_one b bs = (Some c, r)" and "x = unat b" and range: "240 \<le> x \<and> x \<le> 244"
  shows "encode_char c @ r = b # bs \<and> scalar c"
proof -
  have b: "byte_of x = b" by (simp add: assms(2))
  note dec = assms(1) [unfolded decode_one.simps, folded assms(2), unfolded Let_def]
  define a where "a = x - 240"
  then have x: "x = 240 + a" "a < 5" using range by auto
  have n: "\<not> x < 128" "\<not> (194 \<le> x \<and> x \<le> 223)" "\<not> (224 \<le> x \<and> x \<le> 239)" using range by linarith+
  obtain c1 c2 c3 where bs: "bs = c1 # c2 # c3 # r" "second4 x c1" "is_cont c2" "is_cont c3"
      "c = a * 262144 + low6 c1 * 4096 + low6 c2 * 64 + low6 c3"
    using dec range n by (simp add: a_def split: list.splits if_splits)
  obtain k where k: "k < 64" "low6 c1 = k" "byte_of (128 + k) = c1"
    by (rule cont_low6 [OF second4_cont [OF bs(2)]])
  obtain l where l: "l < 64" "low6 c2 = l" "byte_of (128 + l) = c2" by (rule cont_low6 [OF bs(3)])
  obtain m where m: "m < 64" "low6 c3 = m" "byte_of (128 + m) = c3" by (rule cont_low6 [OF bs(4)])
  have c: "c = a * 262144 + k * 4096 + l * 64 + m" using bs(5) k(2) l(2) m(2) by simp
  have dm: "c div 262144 = a" "c div 4096 = a * 64 + k" "c div 64 = (a * 64 + k) * 64 + l" "c mod 64 = m"
    unfolding c using undigits64_4 [OF k(1) l(1) m(1)] by blast+
  have u: "unat c1 = 128 + k" using k(3) unat_byte_of [of "128 + k"] k(1) by simp
  have lo: "a = 0 \<Longrightarrow> 16 \<le> k" and hi: "a = 4 \<Longrightarrow> k < 16"
    using bs(2) u by (auto simp: second4_def x)
  have "\<not> c < 65536" using c lo by (cases "a = 0") simp_all
  moreover have "c < 1114112"
    using c hi x(2) k(1) l(1) m(1) by (cases "a = 4") simp_all
  moreover have "\<not> c < 128" "\<not> c < 2048" using \<open>\<not> c < 65536\<close> by linarith+
  moreover have "((a * 64 + k) * 64 + l) mod 64 = l" "(a * 64 + k) mod 64 = k"
    by (simp_all only: undigits64_2 [OF k(1)] undigits64_2 [OF l(1)])
  ultimately show ?thesis using dm bs(1) k(3) l(3) m(3) b x by (simp add: encode_char_def scalar_def)
qed

lemma encode_decode_one:
  assumes "decode_one b bs = (Some c, r)"
  shows "encode_char c @ r = b # bs \<and> scalar c"
proof -
  define x where "x = unat b"
  have b: "byte_of x = b" by (simp add: x_def)
  note dec = assms [unfolded decode_one.simps, folded x_def, unfolded Let_def]
  consider "x < 128" | "194 \<le> x \<and> x \<le> 223" | "224 \<le> x \<and> x \<le> 239" | "240 \<le> x \<and> x \<le> 244"
    | "\<not> x < 128" "\<not> (194 \<le> x \<and> x \<le> 223)" "\<not> (224 \<le> x \<and> x \<le> 239)" "\<not> (240 \<le> x \<and> x \<le> 244)"
    by blast
  then show ?thesis
  proof cases
    case 1
    then show ?thesis using dec b by (auto simp: encode_char_def scalar_def)
  next
    case 2
    with assms x_def show ?thesis by (rule encode_decode_two)
  next
    case 3
    with assms x_def show ?thesis by (rule encode_decode_three)
  next
    case 4
    with assms x_def show ?thesis by (rule encode_decode_four)
  next
    case 5
    then show ?thesis using dec by (simp only: if_False) simp
  qed
qed

lemma str_bytes_from_utf8: "from_utf8 bs = Some s \<Longrightarrow> str_bytes s = bs \<and> (\<forall>c \<in> set s. scalar c)"
proof (induction bs arbitrary: s rule: from_utf8.induct)
  case (2 b bs)
  obtain d r where d: "decode_one b bs = (d, r)" by fastforce
  with 2 obtain c s' where s: "d = Some c" "from_utf8 r = Some s'" "s = c # s'"
    by (auto split: option.splits)
  with 2(1) [OF d [symmetric], of c] d have "str_bytes s' = r \<and> (\<forall>c \<in> set s'. scalar c)" by auto
  with encode_decode_one [of b bs c r] d s show ?case by simp
qed simp

text \<open>The strict decoder accepts exactly the encodings of sequences of scalar values.\<close>

lemma from_utf8_iff: "from_utf8 bs = Some s \<longleftrightarrow> str_bytes s = bs \<and> (\<forall>c \<in> set s. scalar c)"
  using str_bytes_from_utf8 from_utf8_str_bytes by blast

section \<open>Trimming and splitting\<close>

definition is_whitespace :: "uchar \<Rightarrow> bool" where
  "is_whitespace c \<longleftrightarrow>
     9 \<le> c \<and> c \<le> 13 \<or> c = 32 \<or> c = 133 \<or> c = 160 \<or> c = 5760 \<or>
     8192 \<le> c \<and> c \<le> 8202 \<or> c = 8232 \<or> c = 8233 \<or> c = 8239 \<or> c = 8287 \<or> c = 12288"

definition trim_start :: "uchar list \<Rightarrow> uchar list" where
  "trim_start s = dropWhile is_whitespace s"

definition trim_end :: "uchar list \<Rightarrow> uchar list" where
  "trim_end s = rev (dropWhile is_whitespace (rev s))"

text \<open>\<open>splitn(2, sep)\<close>: the part before the first separator, and what follows it, if any.\<close>

fun splitn2 :: "uchar \<Rightarrow> uchar list \<Rightarrow> uchar list \<times> uchar list option" where
  "splitn2 sep [] = ([], None)"
| "splitn2 sep (c # s) =
     (if c = sep then ([], Some s)
      else (case splitn2 sep s of (h, t) \<Rightarrow> (c # h, t)))"

text \<open>A string literal of the source.\<close>

definition str :: "string \<Rightarrow> uchar list" where
  "str s = map of_char s"

lemma splitn2_no_sep: "sep \<notin> set s \<Longrightarrow> splitn2 sep s = (s, None)"
  by (induction s) auto

lemma splitn2_append: "sep \<notin> set h \<Longrightarrow> splitn2 sep (h @ sep # t) = (h, Some t)"
  by (induction h) auto

lemma trim_end_id: "s = [] \<or> \<not> is_whitespace (last s) \<Longrightarrow> trim_end s = s"
  by (cases s rule: rev_cases) (auto simp: trim_end_def)

lemma trim_start_id: "s = [] \<or> \<not> is_whitespace (hd s) \<Longrightarrow> trim_start s = s"
  by (cases s) (auto simp: trim_start_def)

lemma trim_end_Nil_iff: "trim_end s = [] \<longleftrightarrow> (\<forall>c \<in> set s. is_whitespace c)"
  by (simp add: trim_end_def)

end
