(* ===== verification/ByteBuf.thy ===== *)
theory ByteBuf
  imports Utf8
begin

text \<open>
  The \<open>bytes::Buf\<close> trait, which comes from a crate outside the repository, as a
  dictionary of its methods (the vtable of \<open>dyn Buf\<close>): a parameter of every
  definition that consumes a buffer.  The locale \<open>buf_laws\<close> states the documented
  contract over an abstraction \<open>content\<close>, the bytes still to be read.

  \<open>bytes_buf\<close> is the dictionary of \<open>Bytes\<close> (one contiguous chunk), \<open>rope_buf\<close>
  that of a buffer made of several chunks; both satisfy the contract.
  \<open>ring_slice\<close> is the extraction of a range from the two halves of a \<open>VecDeque\<close>
  that both streaming parsers share.
\<close>

record 'b buf =
  buf_remaining :: "'b \<Rightarrow> nat"
  buf_chunk :: "'b \<Rightarrow> byte list"
  buf_advance :: "nat \<Rightarrow> 'b \<Rightarrow> 'b"
  buf_copy_to_bytes :: "nat \<Rightarrow> 'b \<Rightarrow> byte list \<times> 'b"

locale buf_laws =
  fixes B :: "'b buf" and content :: "'b \<Rightarrow> byte list"
  assumes remaining_content: "buf_remaining B b = length (content b)"
    and chunk_prefix: "prefix (buf_chunk B b) (content b)"
    and chunk_nonempty: "0 < buf_remaining B b \<Longrightarrow> buf_chunk B b \<noteq> []"
    and advance_content: "n \<le> buf_remaining B b \<Longrightarrow> content (buf_advance B n b) = drop n (content b)"
    and copy_content: "n \<le> buf_remaining B b \<Longrightarrow> fst (buf_copy_to_bytes B n b) = take n (content b)"
    and copy_rest: "n \<le> buf_remaining B b \<Longrightarrow> content (snd (buf_copy_to_bytes B n b)) = drop n (content b)"

section \<open>Draining a buffer\<close>

text \<open>
  \<open>while frame.has_remaining() { push chunk; frame.advance(chunk.len()) }\<close>, the
  first loop of both \<open>append_frame\<close> functions.  A buffer that reports remaining
  bytes and an empty chunk makes it spin, so not returning is \<open>None\<close>.
\<close>

partial_function (option) fill :: "'b buf \<Rightarrow> 'b \<Rightarrow> byte list \<Rightarrow> byte list option" where
  "fill B frame buffer =
     (if 0 < buf_remaining B frame
      then fill B (buf_advance B (length (buf_chunk B frame)) frame) (buffer @ buf_chunk B frame)
      else Some buffer)"

text \<open>\<open>data.copy_to_bytes(data.remaining())\<close>.\<close>

definition to_bytes :: "'b buf \<Rightarrow> 'b \<Rightarrow> byte list" where
  "to_bytes B data = fst (buf_copy_to_bytes B (buf_remaining B data) data)"

context buf_laws
begin

lemma chunk_split: "content b = buf_chunk B b @ drop (length (buf_chunk B b)) (content b)"
  using chunk_prefix [of b] by (auto simp: prefix_def)

lemma chunk_length: "length (buf_chunk B b) \<le> buf_remaining B b"
  using prefix_length_le [OF chunk_prefix [of b]] by (simp add: remaining_content)

lemma fill_content: "fill B frame buffer = Some (buffer @ content frame)"
proof (induction "length (content frame)" arbitrary: frame buffer rule: less_induct)
  case less
  show ?case
  proof (cases "0 < buf_remaining B frame")
    case True
    let ?c = "buf_chunk B frame"
    let ?frame' = "buf_advance B (length ?c) frame"
    have rest: "content ?frame' = drop (length ?c) (content frame)"
      by (rule advance_content [OF chunk_length])
    moreover have "?c \<noteq> []" by (rule chunk_nonempty [OF True])
    ultimately have "length (content ?frame') < length (content frame)"
      using True by (simp add: remaining_content)
    from less [OF this] have "fill B frame buffer = Some ((buffer @ ?c) @ content ?frame')"
      using True by (simp add: fill.simps [of B frame buffer])
    then show ?thesis using rest chunk_split [of frame] by simp
  next
    case False
    then show ?thesis by (simp add: fill.simps [of B frame buffer] remaining_content)
  qed
qed

lemma to_bytes_content: "to_bytes B b = content b"
  by (simp add: to_bytes_def copy_content remaining_content)

lemma chunk_eq_content_iff: "buf_chunk B b = content b \<longleftrightarrow> length (buf_chunk B b) = buf_remaining B b"
proof
  assume "length (buf_chunk B b) = buf_remaining B b"
  then show "buf_chunk B b = content b"
    using chunk_split [of b] by (simp add: remaining_content)
qed (simp add: remaining_content)

end

section \<open>Contiguous and chunked buffers\<close>

definition bytes_buf :: "byte list buf" where
  "bytes_buf = \<lparr>buf_remaining = length, buf_chunk = (\<lambda>b. b), buf_advance = drop,
                buf_copy_to_bytes = (\<lambda>n b. (take n b, drop n b))\<rparr>"

fun rope_chunk :: "byte list list \<Rightarrow> byte list" where
  "rope_chunk [] = []"
| "rope_chunk (c # cs) = (if c = [] then rope_chunk cs else c)"

fun rope_advance :: "nat \<Rightarrow> byte list list \<Rightarrow> byte list list" where
  "rope_advance n [] = []"
| "rope_advance n (c # cs) =
     (if length c \<le> n then rope_advance (n - length c) cs else drop n c # cs)"

definition rope_buf :: "byte list list buf" where
  "rope_buf = \<lparr>buf_remaining = (\<lambda>r. length (concat r)), buf_chunk = rope_chunk,
               buf_advance = rope_advance,
               buf_copy_to_bytes = (\<lambda>n r. (take n (concat r), rope_advance n r))\<rparr>"

lemma rope_chunk_prefix: "prefix (rope_chunk r) (concat r)"
  by (induction r) auto

lemma rope_chunk_Nil: "rope_chunk r = [] \<Longrightarrow> concat r = []"
  by (induction r) (auto split: if_splits)

lemma concat_rope_advance: "concat (rope_advance n r) = drop n (concat r)"
  by (induction n r rule: rope_advance.induct) auto

interpretation contiguous: buf_laws bytes_buf "\<lambda>b. b"
  by unfold_locales (auto simp: bytes_buf_def)

interpretation rope: buf_laws rope_buf concat
  by unfold_locales
    (auto simp: rope_buf_def rope_chunk_prefix concat_rope_advance
       simp del: concat_eq_Nil_conv length_concat dest: rope_chunk_Nil)

section \<open>Ranges of a double-ended queue\<close>

text \<open>
  \<open>VecDeque::as_slices\<close>: where the ring wraps depends on its history and capacity, so
  the layout \<open>lay\<close> that says how long the first half is stays arbitrary.
\<close>

definition as_slices :: "('a list \<Rightarrow> nat) \<Rightarrow> 'a list \<Rightarrow> 'a list \<times> 'a list" where
  "as_slices lay xs = (take (lay xs) xs, drop (lay xs) xs)"

definition ring_slice :: "('a list \<Rightarrow> nat) \<Rightarrow> 'a list \<Rightarrow> nat \<Rightarrow> nat \<Rightarrow> 'a list option" where
  "ring_slice lay buffer start stop =
     (let (s1, s2) = as_slices lay buffer in
      if stop \<le> length s1 then slice s1 start stop
      else if length s1 \<le> start then slice s2 (start - length s1) (stop - length s1)
      else (case slice s1 start (length s1) of
              None \<Rightarrow> None
            | Some a \<Rightarrow> map_option (\<lambda>b. a @ b) (slice s2 0 (stop - length s1))))"

lemma ring_slice_eq:
  assumes "start \<le> stop" and "stop \<le> length buffer"
  shows "ring_slice lay buffer start stop = Some (drop start (take stop buffer))"
proof -
  define k where "k = min (lay buffer) (length buffer)"
  have sl: "as_slices lay buffer = (take k buffer, drop k buffer)"
    by (simp add: as_slices_def k_def min_def)
  have k: "k \<le> length buffer" by (simp add: k_def)
  consider "stop \<le> k" | "k < stop" "k \<le> start" | "k < stop" "start < k" by linarith
  then show ?thesis
  proof cases
    case 1
    then show ?thesis using assms k sl
      by (simp add: ring_slice_def slice_def drop_take min_def)
  next
    case 2
    then have "start - k \<le> stop - k" and "stop - k \<le> length buffer - k"
      using assms by linarith+
    with 2 show ?thesis using assms k sl
      by (simp add: ring_slice_def slice_def drop_take)
  next
    case 3
    have "drop start (take stop buffer) = drop start (take k buffer @ drop k (take stop buffer))"
      using 3 by (metis append_take_drop_id less_imp_le min.absorb1 take_take)
    then show ?thesis using 3 assms k sl
      by (simp add: ring_slice_def slice_def drop_take)
  qed
qed

end
