(* ===== verification/LineFraming.thy ===== *)
theory LineFraming
  imports ByteBuf
begin

text \<open>
  What both streaming parsers promise about lines, and the proof that a scanner with
  their loop keeps the promise.

  \<open>lines_rest cur bs\<close> is the reference: the complete lines of a byte sequence, the
  first one continuing \<open>cur\<close>, and the unterminated rest.  The locale
  \<open>line_scanner\<close> states the equations of the scanning loop (\<open>SseStream\<close> and
  \<open>NdjsonStream\<close> interpret it with their own loops); \<open>scan_correct\<close> is proved once.
\<close>

abbreviation newline :: byte where
  "newline \<equiv> 10"

fun lines_rest :: "byte list \<Rightarrow> byte list \<Rightarrow> byte list list \<times> byte list" where
  "lines_rest cur [] = ([], cur)"
| "lines_rest cur (b # bs) =
     (if b = newline then (case lines_rest [] bs of (ls, r) \<Rightarrow> (cur # ls, r))
      else lines_rest (cur @ [b]) bs)"

definition complete_lines :: "byte list \<Rightarrow> byte list list" where
  "complete_lines bs = fst (lines_rest [] bs)"

definition unterminated :: "byte list \<Rightarrow> byte list" where
  "unterminated bs = snd (lines_rest [] bs)"

lemma lines_rest_append:
  "lines_rest cur (xs @ ys) =
     (fst (lines_rest cur xs) @ fst (lines_rest (snd (lines_rest cur xs)) ys),
      snd (lines_rest (snd (lines_rest cur xs)) ys))"
  by (induction cur xs rule: lines_rest.induct) (auto split: prod.splits)

lemma lines_rest_no_newline: "newline \<notin> set bs \<Longrightarrow> lines_rest cur bs = ([], cur @ bs)"
  by (induction bs arbitrary: cur) auto

lemma lines_rest_rest: "newline \<notin> set cur \<Longrightarrow> newline \<notin> set (snd (lines_rest cur bs))"
  by (induction cur bs rule: lines_rest.induct) (auto split: prod.splits)

lemma lines_rest_lines:
  "newline \<notin> set cur \<Longrightarrow> l \<in> set (fst (lines_rest cur bs)) \<Longrightarrow> newline \<notin> set l"
  by (induction cur bs rule: lines_rest.induct) (auto split: prod.splits if_splits)

lemma lines_rest_restart:
  "newline \<notin> set cur \<Longrightarrow> lines_rest [] (cur @ bs) = lines_rest cur bs"
  by (simp add: lines_rest_append lines_rest_no_newline)

lemma lines_rest_length:
  "length (snd (lines_rest cur bs)) \<le> length cur + length bs"
  by (induction cur bs rule: lines_rest.induct) (auto split: prod.splits)

lemma lines_rest_suffix:
  "newline \<notin> set cur \<Longrightarrow>
   snd (lines_rest cur bs) = drop (length cur + length bs - length (snd (lines_rest cur bs))) (cur @ bs)"
proof (induction cur bs rule: lines_rest.induct)
  case (2 cur b bs)
  show ?case
  proof (cases "b = newline")
    case True
    let ?r = "snd (lines_rest [] bs)"
    have "?r = drop (length bs - length ?r) bs" using 2 True by simp
    moreover have "length ?r \<le> length bs" using lines_rest_length [of "[]" bs] by simp
    ultimately show ?thesis using True
      by (simp add: split_beta Suc_diff_le)
  next
    case False
    then show ?thesis using 2 by simp
  qed
qed simp

text \<open>No byte is lost: lines, newlines and the rest make up the input.\<close>

lemma lines_rest_concat:
  "concat (map (\<lambda>l. l @ [newline]) (fst (lines_rest cur bs))) @ snd (lines_rest cur bs) = cur @ bs"
  by (induction cur bs rule: lines_rest.induct) (auto split: prod.splits)

lemma complete_lines_append:
  "complete_lines (xs @ ys) = complete_lines xs @ complete_lines (unterminated xs @ ys)"
  by (simp only: complete_lines_def unterminated_def lines_rest_append [of "[]" xs ys]
      lines_rest_restart [OF lines_rest_rest [of "[]" xs]] fst_conv list.set empty_iff
      not_False_eq_True)

lemma unterminated_append: "unterminated (xs @ ys) = unterminated (unterminated xs @ ys)"
  by (simp only: unterminated_def lines_rest_append [of "[]" xs ys]
      lines_rest_restart [OF lines_rest_rest [of "[]" xs]] snd_conv list.set empty_iff
      not_False_eq_True)

lemma unterminated_no_newline [simp]: "newline \<notin> set (unterminated bs)"
  by (simp add: unterminated_def lines_rest_rest)

lemma unterminated_id: "newline \<notin> set bs \<Longrightarrow> unterminated bs = bs"
  by (simp add: unterminated_def lines_rest_no_newline)

lemma complete_lines_terminated:
  "newline \<notin> set l \<Longrightarrow> complete_lines (l @ newline # bs) = l # complete_lines bs"
  by (simp add: complete_lines_def lines_rest_append lines_rest_no_newline split: prod.splits)

lemma unterminated_terminated:
  "newline \<notin> set l \<Longrightarrow> unterminated (l @ newline # bs) = unterminated bs"
  by (simp add: unterminated_def lines_rest_append lines_rest_no_newline split: prod.splits)

section \<open>The scanning loop\<close>

locale line_scanner =
  fixes scan :: "nat list \<Rightarrow> nat \<Rightarrow> 's \<Rightarrow> (nat \<times> 's) option"
    and get_buffer :: "'s \<Rightarrow> byte list"
    and on_line :: "byte list \<Rightarrow> 's \<Rightarrow> 's"
  assumes scan_done: "scan [] processed s = Some (processed, s)"
    and scan_skip: "get_buffer s ! pos \<noteq> newline \<Longrightarrow>
          scan (pos # ps) processed s = scan ps processed s"
    and scan_line: "get_buffer s ! pos = newline \<Longrightarrow> processed \<le> pos \<Longrightarrow>
          pos < length (get_buffer s) \<Longrightarrow>
          scan (pos # ps) processed s =
            scan ps (Suc pos) (on_line (drop processed (take pos (get_buffer s))) s)"
    and buffer_on_line: "get_buffer (on_line l s) = get_buffer s"
begin

lemma scan_from:
  assumes "processed \<le> pos" and "pos \<le> length buf" and "get_buffer s = buf"
    and "newline \<notin> set (drop processed (take pos buf))"
  shows "scan [pos..<length buf] processed s =
     (let (ls, r) = lines_rest (drop processed (take pos buf)) (drop pos buf)
      in Some (length buf - length r, fold on_line ls s))"
  using assms
proof (induction "length buf - pos" arbitrary: pos processed s)
  case 0
  then show ?case by (simp add: scan_done)
next
  case (Suc n)
  then have lt: "pos < length buf" by simp
  let ?cur = "drop processed (take pos buf)"
  have upt: "[pos..<length buf] = pos # [Suc pos..<length buf]" by (rule upt_conv_Cons [OF lt])
  have rest: "drop pos buf = buf ! pos # drop (Suc pos) buf" by (rule Cons_nth_drop_Suc [OF lt, symmetric])
  show ?case
  proof (cases "buf ! pos = newline")
    case True
    have "scan [Suc pos..<length buf] (Suc pos) (on_line ?cur s) =
       (let (ls, r) = lines_rest [] (drop (Suc pos) buf)
        in Some (length buf - length r, fold on_line ls (on_line ?cur s)))"
      using Suc.hyps(1) [of "Suc pos" "Suc pos" "on_line ?cur s"] Suc.hyps(2) Suc.prems lt
      by (simp add: buffer_on_line)
    then show ?thesis using True Suc.prems lt
      by (simp add: upt rest scan_line split: prod.splits)
  next
    case False
    have "drop processed (take (Suc pos) buf) = ?cur @ [buf ! pos]"
      by (rule take_Suc_drop [OF Suc.prems(1) lt])
    then show ?thesis
      using Suc.hyps(1) [of "Suc pos" processed s] Suc.hyps(2) Suc.prems lt False
      by (simp add: upt rest scan_skip)
  qed
qed

text \<open>
  Scanning only the new part of the buffer finds every complete line of the whole
  buffer, provided the old part holds no newline.
\<close>

lemma scan_correct:
  assumes "get_buffer s = old @ new" and "newline \<notin> set old"
  shows "scan [length old..<length (old @ new)] 0 s =
     Some (length (old @ new) - length (unterminated (old @ new)),
           fold on_line (complete_lines (old @ new)) s)"
  using scan_from [of 0 "length old" "old @ new" s] assms
  by (simp add: complete_lines_def unterminated_def lines_rest_restart split_beta)

end

lemma drop_processed: "drop (length bs - length (unterminated bs)) bs = unterminated bs"
  using lines_rest_suffix [of "[]" bs] by (simp add: unterminated_def)

lemma unterminated_length: "length (unterminated bs) \<le> length bs"
  using lines_rest_length [of "[]" bs] by (simp add: unterminated_def)

end
