(* ===== verification/HttpBody.thy ===== *)
theory HttpBody
  imports LineFraming
begin

text \<open>
  Frames and the polling of bodies.

  A frame carries data or trailers.  A body is known by its \<open>poll_frame\<close>, a
  parameter; one poll answers \<open>Pending\<close>, or is ready with the end of the body, an
  error or a frame.  \<open>run_polls\<close> polls a stream a number of times and logs, for
  every poll, what it returned, whether it woke its own task, and what it got from
  the body if it asked the body at all.  The locale \<open>framed_stream\<close> is the contract
  of \<open>poll_next\<close> that \<open>SseStream\<close> and \<open>NdjsonStream\<close> share; the lemmas about
  whole runs are proved in it once.
\<close>

type_synonym headers = "(string \<times> byte list) list"

datatype 'd frame = DataFrame 'd | TrailersFrame headers
  for map: frame_map

fun map_data :: "('d \<Rightarrow> 'c) \<Rightarrow> 'd frame \<Rightarrow> 'c frame" where
  "map_data f (DataFrame d) = DataFrame (f d)"
| "map_data f (TrailersFrame h) = TrailersFrame h"

fun into_data :: "'d frame \<Rightarrow> 'd frame + 'd" where
  "into_data (DataFrame d) = Inr d"
| "into_data (TrailersFrame h) = Inl (TrailersFrame h)"

type_synonym ('d, 'e) outcome = "('e + 'd frame) option poll"

text \<open>A body that plays back a list of outcomes and then stays at its end.\<close>

fun poll_script :: "('d, 'e) outcome list \<Rightarrow> ('d, 'e) outcome \<times> ('d, 'e) outcome list" where
  "poll_script [] = (Ready None, [])"
| "poll_script (out # os) = (out, os)"

text \<open>The outcomes of the first \<open>n\<close> polls of a body.\<close>

fun poll_n :: "('s \<Rightarrow> ('d, 'e) outcome \<times> 's) \<Rightarrow> nat \<Rightarrow> 's \<Rightarrow> ('d, 'e) outcome list" where
  "poll_n poll_frame 0 b = []"
| "poll_n poll_frame (Suc n) b = fst (poll_frame b) # poll_n poll_frame n (snd (poll_frame b))"

fun data_bytes :: "(byte list, 'e) outcome list \<Rightarrow> byte list" where
  "data_bytes [] = []"
| "data_bytes (Ready (Some (Inr (DataFrame d))) # os) = d @ data_bytes os"
| "data_bytes (_ # os) = data_bytes os"

lemma data_bytes_append [simp]: "data_bytes (xs @ ys) = data_bytes xs @ data_bytes ys"
  by (induction xs rule: data_bytes.induct) auto

section \<open>Runs of polls\<close>

record ('i, 'e) poll_log =
  log_result :: "('e + 'i) option poll"
  log_woken :: bool
  log_outcome :: "(byte list, 'e) outcome option"

fun run_polls ::
  "('s \<Rightarrow> (('e + 'i) option poll \<times> bool \<times> 's) option) \<Rightarrow> ('s \<Rightarrow> (byte list, 'e) outcome option) \<Rightarrow>
   nat \<Rightarrow> 's \<Rightarrow> (('i, 'e) poll_log list \<times> 's) option" where
  "run_polls poll_next asks 0 s = Some ([], s)"
| "run_polls poll_next asks (Suc n) s =
     (case poll_next s of
        None \<Rightarrow> None
      | Some (r, woken, s') \<Rightarrow>
          map_option
            (\<lambda>(log, t). (\<lparr>log_result = r, log_woken = woken, log_outcome = asks s\<rparr> # log, t))
            (run_polls poll_next asks n s'))"

definition outcomes :: "('i, 'e) poll_log list \<Rightarrow> (byte list, 'e) outcome list" where
  "outcomes log = List.map_filter log_outcome log"

definition delivered :: "('i, 'e) poll_log list \<Rightarrow> byte list" where
  "delivered log = data_bytes (outcomes log)"

text \<open>A poll that passes an error of the body on.\<close>

fun body_failed :: "(byte list, 'e) outcome option \<Rightarrow> bool" where
  "body_failed (Some (Ready (Some (Inl e)))) = True"
| "body_failed _ = False"

fun item_of :: "('i, 'e) poll_log \<Rightarrow> ('e + 'i) option" where
  "item_of l = (if body_failed (log_outcome l) then None
                else case log_result l of Ready (Some it) \<Rightarrow> Some it | _ \<Rightarrow> None)"

text \<open>The parsed items the run returned, in order.\<close>

definition items :: "('i, 'e) poll_log list \<Rightarrow> ('e + 'i) list" where
  "items log = List.map_filter item_of log"

lemma log_simps [simp]:
  "outcomes [] = []" "items [] = []" "delivered [] = []"
  "outcomes (l # log) = (case log_outcome l of None \<Rightarrow> outcomes log | Some out \<Rightarrow> out # outcomes log)"
  "items (l # log) = (case item_of l of None \<Rightarrow> items log | Some it \<Rightarrow> it # items log)"
  "delivered (l # log) =
     (case log_outcome l of Some (Ready (Some (Inr (DataFrame d)))) \<Rightarrow> d @ delivered log
      | _ \<Rightarrow> delivered log)"
  by (simp_all add: outcomes_def items_def delivered_def map_filter_simps
      split: option.splits poll.splits sum.splits frame.splits)

text \<open>
  What a single poll must do: never ask for sleep without a wake-up on its way, end
  exactly when the body ends, and hand an error of the body through unchanged.
\<close>

definition log_fair :: "('i, 'e) poll_log \<Rightarrow> bool" where
  "log_fair l \<longleftrightarrow>
     (log_result l = Pending \<longrightarrow> log_woken l \<or> log_outcome l = Some Pending) \<and>
     (log_result l = Ready None \<longleftrightarrow> log_outcome l = Some (Ready None)) \<and>
     (\<forall>e. log_outcome l = Some (Ready (Some (Inl e))) \<longrightarrow> log_result l = Ready (Some (Inl e)))"

text \<open>What a poll of a body can give.\<close>

lemma outcome_cases [case_names pending finished failed data trailers]:
  obtains "out = Pending" | "out = Ready None" | e where "out = Ready (Some (Inl e))"
    | d where "out = Ready (Some (Inr (DataFrame d)))"
    | h where "out = Ready (Some (Inr (TrailersFrame h)))"
  using that by (metis frame.exhaust option.exhaust poll.exhaust sum.exhaust)

lemma outcomes_append: "outcomes (xs @ ys) = outcomes xs @ outcomes ys"
  by (induction xs) (auto split: option.splits)

lemma items_append: "items (xs @ ys) = items xs @ items ys"
  by (induction xs) (auto split: option.splits)

lemma run_polls_add:
  "run_polls poll_next asks (m + n) s =
     (case run_polls poll_next asks m s of
        None \<Rightarrow> None
      | Some (log, s1) \<Rightarrow> map_option (\<lambda>(rest, s'). (log @ rest, s')) (run_polls poll_next asks n s1))"
  by (induction m arbitrary: s) (auto split: option.splits prod.splits simp: option.map_comp comp_def case_prod_unfold option.map_ident)

section \<open>The contract of a parser over a body\<close>

text \<open>
  \<open>queue s\<close> are the items parsed and not yet returned, \<open>poll_body s\<close> is what the
  body would answer, \<open>reference bs\<close> the items in a byte sequence and \<open>tracks s bs\<close>
  that the parser has consumed exactly \<open>bs\<close>.  The result of a poll is
  \<open>deliver q\<close>: the first new item, or sleep with a wake-up of the own task.
\<close>

definition deliver :: "('e + 'i) list \<Rightarrow> ('e + 'i) option poll \<times> bool" where
  "deliver q = (case q of [] \<Rightarrow> (Pending, True) | it # _ \<Rightarrow> (Ready (Some it), False))"

text \<open>A parser asks its body only when it has nothing queued.\<close>

definition asks :: "('s \<Rightarrow> (byte list, 'e) outcome) \<Rightarrow> ('s \<Rightarrow> ('e + 'i) list) \<Rightarrow> 's \<Rightarrow>
    (byte list, 'e) outcome option" where
  "asks poll_body queue s = (if queue s = [] then Some (poll_body s) else None)"

locale framed_stream =
  fixes poll_next :: "'s \<Rightarrow> (('e + 'i) option poll \<times> bool \<times> 's) option"
    and poll_body :: "'s \<Rightarrow> (byte list, 'e) outcome"
    and queue :: "'s \<Rightarrow> ('e + 'i) list"
    and reference :: "byte list \<Rightarrow> ('e + 'i) list"
    and tracks :: "'s \<Rightarrow> byte list \<Rightarrow> bool"
  assumes poll_queued: "queue s = it # q \<Longrightarrow> tracks s bs \<Longrightarrow>
        \<exists>s'. poll_next s = Some (Ready (Some it), False, s') \<and> queue s' = q \<and> tracks s' bs"
    and poll_pending: "queue s = [] \<Longrightarrow> poll_body s = Pending \<Longrightarrow> tracks s bs \<Longrightarrow>
        \<exists>s'. poll_next s = Some (Pending, False, s') \<and> queue s' = [] \<and> tracks s' bs"
    and poll_end: "queue s = [] \<Longrightarrow> poll_body s = Ready None \<Longrightarrow> tracks s bs \<Longrightarrow>
        \<exists>s'. poll_next s = Some (Ready None, False, s') \<and> queue s' = [] \<and> tracks s' bs"
    and poll_error: "queue s = [] \<Longrightarrow> poll_body s = Ready (Some (Inl e)) \<Longrightarrow> tracks s bs \<Longrightarrow>
        \<exists>s'. poll_next s = Some (Ready (Some (Inl e)), False, s') \<and> queue s' = [] \<and> tracks s' bs"
    and poll_trailers: "queue s = [] \<Longrightarrow> poll_body s = Ready (Some (Inr (TrailersFrame h))) \<Longrightarrow>
        tracks s bs \<Longrightarrow>
        \<exists>s'. poll_next s = Some (Pending, True, s') \<and> queue s' = [] \<and> tracks s' bs"
    and poll_data: "queue s = [] \<Longrightarrow> poll_body s = Ready (Some (Inr (DataFrame d))) \<Longrightarrow>
        tracks s bs \<Longrightarrow>
        \<exists>s' q r w. reference (bs @ d) = reference bs @ q \<and> deliver q = (r, w) \<and>
          poll_next s = Some (r, w, s') \<and> queue s' = tl q \<and> tracks s' (bs @ d)"
begin

abbreviation ask :: "'s \<Rightarrow> (byte list, 'e) outcome option" where
  "ask \<equiv> asks poll_body queue"

text \<open>One poll: it returns, it is fair, and what it yields accounts for the bytes it took.\<close>

lemma poll_step:
  assumes tracks: "tracks s bs"
  obtains r w s' where "poll_next s = Some (r, w, s')"
    and "log_fair \<lparr>log_result = r, log_woken = w, log_outcome = ask s\<rparr>"
    and "tracks s' (bs @ delivered [\<lparr>log_result = r, log_woken = w, log_outcome = ask s\<rparr>])"
    and "\<And>done. done @ queue s = reference bs \<Longrightarrow>
           (done @ items [\<lparr>log_result = r, log_woken = w, log_outcome = ask s\<rparr>]) @ queue s' =
           reference (bs @ delivered [\<lparr>log_result = r, log_woken = w, log_outcome = ask s\<rparr>])"
proof (cases "queue s")
  case (Cons it q)
  obtain s' where "poll_next s = Some (Ready (Some it), False, s')" "queue s' = q" "tracks s' bs"
    using poll_queued [OF Cons tracks] by blast
  with Cons show ?thesis
    by (intro that [of "Ready (Some it)" False s']) (simp_all add: asks_def log_fair_def)
next
  case Nil
  show ?thesis
  proof (cases "poll_body s" rule: outcome_cases)
    case pending
    obtain s' where "poll_next s = Some (Pending, False, s')" "queue s' = []" "tracks s' bs"
      using poll_pending [OF Nil pending tracks] by blast
    with Nil pending show ?thesis
      by (intro that [of Pending False s']) (simp_all add: asks_def log_fair_def)
  next
    case finished
    obtain s' where "poll_next s = Some (Ready None, False, s')" "queue s' = []" "tracks s' bs"
      using poll_end [OF Nil finished tracks] by blast
    with Nil finished show ?thesis
      by (intro that [of "Ready None" False s']) (simp_all add: asks_def log_fair_def)
  next
    case (failed e)
    obtain s' where "poll_next s = Some (Ready (Some (Inl e)), False, s')" "queue s' = []" "tracks s' bs"
      using poll_error [OF Nil failed tracks] by blast
    with Nil failed show ?thesis
      by (intro that [of "Ready (Some (Inl e))" False s']) (simp_all add: asks_def log_fair_def)
  next
    case (data d)
    obtain s' q r w where step: "reference (bs @ d) = reference bs @ q" "deliver q = (r, w)"
        "poll_next s = Some (r, w, s')" "queue s' = tl q" "tracks s' (bs @ d)"
      using poll_data [OF Nil data tracks] by blast
    show ?thesis
      by (rule that [OF step(3)])
        (use step data Nil in \<open>auto simp: asks_def log_fair_def deliver_def split: list.splits\<close>)
  next
    case (trailers h)
    obtain s' where "poll_next s = Some (Pending, True, s')" "queue s' = []" "tracks s' bs"
      using poll_trailers [OF Nil trailers tracks] by blast
    with Nil trailers show ?thesis
      by (intro that [of Pending True s']) (simp_all add: asks_def log_fair_def)
  qed
qed

text \<open>
  Any number of polls: the run does not get stuck, and the items returned so far with
  the items still queued are exactly the items of the bytes the body has delivered.
\<close>

lemma run_correct:
  assumes "tracks s bs" and "done @ queue s = reference bs"
  shows "\<exists>log s'. run_polls poll_next ask n s = Some (log, s') \<and> length log = n \<and>
           list_all log_fair log \<and> tracks s' (bs @ delivered log) \<and>
           done @ items log @ queue s' = reference (bs @ delivered log)"
  using assms
proof (induction n arbitrary: s bs "done")
  case 0
  then show ?case by simp
next
  case (Suc n)
  obtain r w s1 where
    step: "poll_next s = Some (r, w, s1)"
      "log_fair \<lparr>log_result = r, log_woken = w, log_outcome = ask s\<rparr>"
      "tracks s1 (bs @ delivered [\<lparr>log_result = r, log_woken = w, log_outcome = ask s\<rparr>])"
      "(done @ items [\<lparr>log_result = r, log_woken = w, log_outcome = ask s\<rparr>]) @ queue s1 =
         reference (bs @ delivered [\<lparr>log_result = r, log_woken = w, log_outcome = ask s\<rparr>])"
    using poll_step [OF Suc.prems(1)] Suc.prems(2) by metis
  from Suc.IH [OF step(3,4)] obtain log s' where
    rest: "run_polls poll_next ask n s1 = Some (log, s')" "length log = n" "list_all log_fair log"
      "tracks s' ((bs @ delivered [\<lparr>log_result = r, log_woken = w, log_outcome = ask s\<rparr>]) @ delivered log)"
      "(done @ items [\<lparr>log_result = r, log_woken = w, log_outcome = ask s\<rparr>]) @ items log @ queue s' =
       reference ((bs @ delivered [\<lparr>log_result = r, log_woken = w, log_outcome = ask s\<rparr>]) @ delivered log)"
    by blast
  have split: "items (l # log) = items [l] @ items log"
      "delivered (l # log) = delivered [l] @ delivered log" for l :: "('i, 'e) poll_log"
    by (simp_all split: option.splits poll.splits sum.splits frame.splits)
  show ?case
    by (rule exI [of _ "\<lparr>log_result = r, log_woken = w, log_outcome = ask s\<rparr> # log"], rule exI [of _ s'])
      (use step rest in \<open>simp only: run_polls.simps option.case prod.case option.map list.pred_inject
         split [of "\<lparr>log_result = r, log_woken = w, log_outcome = ask s\<rparr>"] append_assoc
         length_Cons simp_thms\<close>)
qed

end

text \<open>
  When the polls of the parser and of its body are known, the bytes delivered are those that the body
  gives in its own polls: the parser polls it only with an empty queue, and not otherwise.
\<close>

locale body_stream = framed_stream poll_next poll_body queue reference tracks
  for poll_next :: "'s \<Rightarrow> (('e + 'i) option poll \<times> bool \<times> 's) option"
    and poll_body :: "'s \<Rightarrow> (byte list, 'e) outcome"
    and queue :: "'s \<Rightarrow> ('e + 'i) list"
    and reference :: "byte list \<Rightarrow> ('e + 'i) list"
    and tracks :: "'s \<Rightarrow> byte list \<Rightarrow> bool" +
  fixes poll_frame :: "'b \<Rightarrow> (byte list, 'e) outcome \<times> 'b"
    and body :: "'s \<Rightarrow> 'b"
  assumes poll_body_frame: "poll_body s = fst (poll_frame (body s))"
    and poll_moves_body: "tracks s bs \<Longrightarrow> poll_next s = Some (r, w, s') \<Longrightarrow>
        body s' = (if queue s = [] then snd (poll_frame (body s)) else body s)"
begin

lemma outcomes_are_polls:
  "tracks s bs \<Longrightarrow> run_polls poll_next ask n s = Some (log, s') \<Longrightarrow>
   \<exists>k \<le> n. outcomes log = poll_n poll_frame k (body s)"
proof (induction n arbitrary: s bs log)
  case (Suc n)
  obtain r w s1 where step: "poll_next s = Some (r, w, s1)"
    and "\<exists>bs1. tracks s1 bs1" by (rule poll_step [OF Suc.prems(1)]) blast
  then obtain bs1 rest where s1: "tracks s1 bs1" "run_polls poll_next ask n s1 = Some (rest, s')"
      and log: "log = \<lparr>log_result = r, log_woken = w, log_outcome = ask s\<rparr> # rest"
    using Suc.prems(2) by auto
  from Suc.IH [OF s1] obtain k where k: "k \<le> n" "outcomes rest = poll_n poll_frame k (body s1)" by blast
  show ?case
  proof (cases "queue s")
    case Nil
    then have "outcomes log = poll_n poll_frame (Suc k) (body s)"
      using k(2) poll_moves_body [OF Suc.prems(1) step] by (simp add: log asks_def poll_body_frame)
    with k(1) show ?thesis by (intro exI [of _ "Suc k"]) simp
  next
    case (Cons it q)
    then have "outcomes log = poll_n poll_frame k (body s)"
      using k(2) poll_moves_body [OF Suc.prems(1) step] by (simp add: log asks_def)
    with k(1) show ?thesis by (intro exI [of _ k]) simp
  qed
qed simp

text \<open>
  The caller who polls until the stream ends: when the body ends after the answers \<open>os\<close>, a number of
  polls leads to the end of the stream, not before every item has been handed out.
\<close>

lemma drain_queue:
  "queue s = q \<Longrightarrow> tracks s bs \<Longrightarrow> \<exists>log s'. run_polls poll_next ask (length q) s = Some (log, s') \<and>
     queue s' = [] \<and> body s' = body s \<and> tracks s' bs \<and> items log = q \<and> outcomes log = [] \<and>
     list_all log_fair log \<and> list_all (\<lambda>l. log_result l \<noteq> Ready None) log"
proof (induction q arbitrary: s)
  case (Cons it q)
  obtain s1 where s1: "poll_next s = Some (Ready (Some it), False, s1)" "queue s1 = q" "tracks s1 bs"
    using poll_queued [OF Cons.prems] by blast
  with Cons.IH obtain log s' where rest: "run_polls poll_next ask (length q) s1 = Some (log, s')" "queue s' = []"
      "body s' = body s1" "tracks s' bs" "items log = q" "outcomes log = []"
      "list_all log_fair log" "list_all (\<lambda>l. log_result l \<noteq> Ready None) log" by blast
  have moved: "body s1 = body s" and asked: "ask s = None"
    using poll_moves_body [OF Cons.prems(2) s1(1)] Cons.prems(1) by (simp_all add: asks_def)
  let ?l = "\<lparr>log_result = Ready (Some it), log_woken = False, log_outcome = ask s\<rparr>"
  have "run_polls poll_next ask (length (it # q)) s = Some (?l # log, s')" using s1(1) rest(1) by simp
  moreover have "items (?l # log) = it # q" "outcomes (?l # log) = []" "log_fair ?l"
    using rest(5,6) by (simp_all add: asked log_fair_def)
  ultimately show ?case using rest moved by (intro exI [of _ "?l # log"] exI [of _ s']) simp
qed simp

lemma ask_once:
  assumes tracks: "tracks s bs" and "done": "done @ queue s = reference bs" and out: "fst (poll_frame (body s)) = out"
  obtains log l s2 where "run_polls poll_next ask (length (queue s) + 1) s = Some (log @ [l], s2)"
    and "list_all (\<lambda>l. log_result l \<noteq> Ready None) log" and "list_all log_fair (log @ [l])"
    and "items log = queue s" and "outcomes (log @ [l]) = [out]" and "body s2 = snd (poll_frame (body s))"
    and "tracks s2 (bs @ data_bytes [out])" and "log_result l = Ready None \<longleftrightarrow> out = Ready None"
    and "(done @ items (log @ [l])) @ queue s2 = reference (bs @ data_bytes [out])"
proof -
  obtain log s1 where run: "run_polls poll_next ask (length (queue s)) s = Some (log, s1)" "queue s1 = []"
      "body s1 = body s" "tracks s1 bs" "items log = queue s" "outcomes log = []"
      "list_all log_fair log" "list_all (\<lambda>l. log_result l \<noteq> Ready None) log"
    using drain_queue [OF refl tracks] by blast
  have asked: "ask s1 = Some out" using out run(2,3) by (simp add: asks_def poll_body_frame)
  obtain r w s2 where step: "poll_next s1 = Some (r, w, s2)"
      "log_fair \<lparr>log_result = r, log_woken = w, log_outcome = ask s1\<rparr>"
      "tracks s2 (bs @ delivered [\<lparr>log_result = r, log_woken = w, log_outcome = ask s1\<rparr>])"
      "\<And>done. done @ queue s1 = reference bs \<Longrightarrow>
         (done @ items [\<lparr>log_result = r, log_woken = w, log_outcome = ask s1\<rparr>]) @ queue s2 =
         reference (bs @ delivered [\<lparr>log_result = r, log_woken = w, log_outcome = ask s1\<rparr>])"
    using poll_step [OF run(4)] by metis
  let ?l = "\<lparr>log_result = r, log_woken = w, log_outcome = ask s1\<rparr>"
  have d: "delivered [?l] = data_bytes [out]" by (simp add: delivered_def outcomes_def asked)
  show thesis
  proof (rule that)
    show "run_polls poll_next ask (length (queue s) + 1) s = Some (log @ [?l], s2)"
      unfolding run_polls_add by (simp add: run(1) step(1))
    show "outcomes (log @ [?l]) = [out]" using run(6) by (simp add: outcomes_append asked)
    show "body s2 = snd (poll_frame (body s))" using poll_moves_body [OF run(4) step(1)] run(2,3) by simp
    show "log_result ?l = Ready None \<longleftrightarrow> out = Ready None" using step(2) by (auto simp: log_fair_def asked)
    have "(done @ queue s) @ queue s1 = reference bs" using run(2) "done" by simp
    from step(4) [OF this] show "(done @ items (log @ [?l])) @ queue s2 = reference (bs @ data_bytes [out])"
      by (simp only: d items_append run(5) append_assoc)
  qed (use run step(2,3) d in simp_all)
qed

lemma polls_to_end:
  "tracks s bs \<Longrightarrow> poll_n poll_frame (Suc (length os)) (body s) = os @ [Ready None] \<Longrightarrow> Ready None \<notin> set os \<Longrightarrow>
   done @ queue s = reference bs \<Longrightarrow>
   \<exists>n log l s'. run_polls poll_next ask n s = Some (log @ [l], s') \<and> log_result l = Ready None \<and>
     list_all (\<lambda>l. log_result l \<noteq> Ready None) log \<and> list_all log_fair (log @ [l]) \<and>
     outcomes (log @ [l]) = os @ [Ready None] \<and> done @ items log = reference (bs @ data_bytes os)"
proof (induction os arbitrary: s bs "done")
  case Nil
  then have "fst (poll_frame (body s)) = Ready None" by simp
  then obtain log l s2
    where "run_polls poll_next ask (length (queue s) + 1) s = Some (log @ [l], s2)"
      "list_all (\<lambda>l. log_result l \<noteq> Ready None) log" "list_all log_fair (log @ [l])" "items log = queue s"
      "outcomes (log @ [l]) = [Ready None]" "log_result l = Ready None \<longleftrightarrow> Ready None = (Ready None :: (byte list, 'e) outcome)"
    using ask_once [OF Nil.prems(1,4)] by blast
  then show ?case using Nil.prems(4)
    by (intro exI [of _ "length (queue s) + 1"] exI [of _ log] exI [of _ l] exI [of _ s2]) simp
next
  case (Cons out os)
  have out: "fst (poll_frame (body s)) = out" "out \<noteq> Ready None" using Cons.prems(2,3) by auto
  obtain log l s2 where once: "run_polls poll_next ask (length (queue s) + 1) s = Some (log @ [l], s2)"
      "list_all (\<lambda>l. log_result l \<noteq> Ready None) log" "list_all log_fair (log @ [l])" "items log = queue s"
      "outcomes (log @ [l]) = [out]" "body s2 = snd (poll_frame (body s))" "tracks s2 (bs @ data_bytes [out])"
      "log_result l = Ready None \<longleftrightarrow> out = Ready None"
      "(done @ items (log @ [l])) @ queue s2 = reference (bs @ data_bytes [out])"
    by (rule ask_once [OF Cons.prems(1,4) out(1)])
  have "poll_n poll_frame (Suc (length os)) (body s2) = os @ [Ready None]" and "Ready None \<notin> set os"
    using Cons.prems(2,3) once(6) by simp_all
  from Cons.IH [OF once(7) this once(9)] obtain n rest k s' where
    rest: "run_polls poll_next ask n s2 = Some (rest @ [k], s')" "log_result k = Ready None"
      "list_all (\<lambda>l. log_result l \<noteq> Ready None) rest" "list_all log_fair (rest @ [k])"
      "outcomes (rest @ [k]) = os @ [Ready None]"
      "(done @ items (log @ [l])) @ items rest = reference ((bs @ data_bytes [out]) @ data_bytes os)" by blast
  have "run_polls poll_next ask ((length (queue s) + 1) + n) s = Some (((log @ [l]) @ rest) @ [k], s')"
    by (simp only: run_polls_add [of _ _ "length (queue s) + 1"] once(1) rest(1) option.case prod.case
        option.map append_assoc)
  moreover have "outcomes (((log @ [l]) @ rest) @ [k]) = (out # os) @ [Ready None]"
    using outcomes_append [of "log @ [l]" "rest @ [k]"] once(5) rest(5) by simp
  moreover have "done @ items ((log @ [l]) @ rest) = reference (bs @ data_bytes (out # os))"
    using rest(6) data_bytes_append [of "[out]" os] items_append [of "log @ [l]" rest] by simp
  ultimately show ?case using rest(2-4) once(2,3,8) out(2)
    by (intro exI [of _ "(length (queue s) + 1) + n"] exI [of _ "(log @ [l]) @ rest"] exI [of _ k] exI [of _ s']) simp
qed

end

lemma delivered_outcomes: "delivered log = data_bytes (outcomes log)"
  by (simp add: delivered_def)

end
