(* ===== verification/Sse.thy ===== *)
theory Sse
  imports HttpBody
begin

text \<open>
  \<open>SseStream\<close>, the incremental parser of Server-Sent Events
  (\<open>src/response_helpers/sse.rs\<close>).

  \<open>sse_stream\<close> is the struct, \<open>sse_process_line\<close>, \<open>sse_append_frame\<close> and
  \<open>sse_poll_next\<close> its methods.  \<open>None\<close> as the value of \<open>sse_append_frame\<close> or
  \<open>sse_poll_next\<close> is a call that does not return (a slice out of range, a loop that
  spins); the theorems show that it does not happen for a lawful buffer.

  \<open>sse_reference\<close> reads a whole byte sequence at once: its complete lines, decoded and
  trimmed, cut into blocks at the empty lines, each block an event
  (\<open>event_of_block\<close>).  The refinement theorem says that the incremental parser yields
  those events whatever the frame boundaries and the layout of the ring buffer.
\<close>

section \<open>The parser\<close>

record sse_event =
  ev_id :: "uchar list option"
  ev_event :: "uchar list option"
  ev_data :: "uchar list"

definition default_event :: sse_event where
  "default_event = \<lparr>ev_id = None, ev_event = None, ev_data = []\<rparr>"

record 'body sse_stream =
  sse_body :: 'body
  sse_buffer :: "byte list"
  sse_line_buf :: "byte list"
  sse_pending :: sse_event
  sse_ready :: "sse_event list"
  sse_last_id :: "uchar list option"

text \<open>
  \<open>map_frame\<close> and \<open>box_new\<close> are the adapters of \<open>http_body_util\<close>; \<open>new\<close> hands
  them the closure that copies every data frame into one contiguous buffer.
\<close>

definition sse_new ::
  "'b buf \<Rightarrow> (('b frame \<Rightarrow> byte list frame) \<Rightarrow> 'normalized \<Rightarrow> 'mapped) \<Rightarrow> ('mapped \<Rightarrow> 'body) \<Rightarrow>
   'normalized \<Rightarrow> 'body sse_stream" where
  "sse_new B map_frame box_new body =
     (let bytes_body = map_frame (map_data (to_bytes B)) body in
      \<lparr>sse_body = box_new bytes_body, sse_buffer = [], sse_line_buf = [],
       sse_pending = default_event, sse_ready = [], sse_last_id = None\<rparr>)"

definition sse_last_event_id :: "'body sse_stream \<Rightarrow> uchar list option" where
  "sse_last_event_id s = sse_last_id s"

definition event_id :: "sse_event \<Rightarrow> uchar list option" where
  "event_id ev = ev_id ev"

definition event_event :: "sse_event \<Rightarrow> uchar list option" where
  "event_event ev = ev_event ev"

definition event_data :: "sse_event \<Rightarrow> uchar list" where
  "event_data ev = ev_data ev"

definition sse_process_line :: "uchar list \<Rightarrow> 'body sse_stream \<Rightarrow> 'body sse_stream" where
  "sse_process_line line s =
     (if line = [] then
        s\<lparr>sse_ready := sse_ready s @ [sse_pending s], sse_pending := default_event\<rparr>
      else
        (let parts = splitn2 (of_char CHR '':'') line;
             name = fst parts;
             value = (case snd parts of Some v \<Rightarrow> trim_start v | None \<Rightarrow> []) in
         if name = str ''data'' then
           (let data = ev_data (sse_pending s);
                data = (if data \<noteq> [] then data @ str [CHR 0x0A] else data) in
            s\<lparr>sse_pending := (sse_pending s)\<lparr>ev_data := data @ value\<rparr>\<rparr>)
         else if name = str ''id'' then
           s\<lparr>sse_pending := (sse_pending s)\<lparr>ev_id := Some value\<rparr>, sse_last_id := Some value\<rparr>
         else if name = str ''event'' then
           s\<lparr>sse_pending := (sse_pending s)\<lparr>ev_event := Some value\<rparr>\<rparr>
         else s))"

text \<open>The loop over the new positions of the buffer, from \<open>old_len\<close> on.\<close>

fun sse_scan ::
  "(byte list \<Rightarrow> nat) \<Rightarrow> nat list \<Rightarrow> nat \<Rightarrow> 'body sse_stream \<Rightarrow> (nat \<times> 'body sse_stream) option" where
  "sse_scan lay [] processed s = Some (processed, s)"
| "sse_scan lay (position # positions) processed s =
     (if sse_buffer s ! position = newline then
        (let s0 = s\<lparr>sse_line_buf := []\<rparr> in
         case ring_slice lay (sse_buffer s0) processed position of
           None \<Rightarrow> None
         | Some buf \<Rightarrow>
             sse_scan lay positions (position + 1)
               ((sse_process_line (trim_end (from_utf8_lossy buf)) s0)\<lparr>sse_line_buf := []\<rparr>))
      else sse_scan lay positions processed s)"

definition sse_append_frame ::
  "'b buf \<Rightarrow> (byte list \<Rightarrow> nat) \<Rightarrow> 'b \<Rightarrow> 'body sse_stream \<Rightarrow> 'body sse_stream option" where
  "sse_append_frame B lay frame s =
     (let old_len = length (sse_buffer s) in
      case fill B frame (sse_buffer s) of
        None \<Rightarrow> None
      | Some buffer \<Rightarrow>
          (case sse_scan lay [old_len..<length buffer] 0 (s\<lparr>sse_buffer := buffer\<rparr>) of
             None \<Rightarrow> None
           | Some (processed, s') \<Rightarrow> Some (s'\<lparr>sse_buffer := drop processed (sse_buffer s')\<rparr>)))"

text \<open>The second component of a poll tells whether \<open>wake_by_ref\<close> was called.\<close>

definition sse_poll_next ::
  "('body \<Rightarrow> (byte list, 'e) outcome \<times> 'body) \<Rightarrow> (byte list \<Rightarrow> nat) \<Rightarrow> 'body sse_stream \<Rightarrow>
   (('e + sse_event) option poll \<times> bool \<times> 'body sse_stream) option" where
  "sse_poll_next poll_frame lay s =
     (case sse_ready s of
        ev # rest \<Rightarrow> Some (Ready (Some (Inr ev)), False, s\<lparr>sse_ready := rest\<rparr>)
      | [] \<Rightarrow>
          (case poll_frame (sse_body s) of
             (Pending, body) \<Rightarrow> Some (Pending, False, s\<lparr>sse_body := body\<rparr>)
           | (Ready frame_result, body) \<Rightarrow>
               (let s1 = s\<lparr>sse_body := body\<rparr> in
                case frame_result of
                  Some (Inr frame) \<Rightarrow>
                    (case into_data frame of
                       Inr data \<Rightarrow>
                         (case sse_append_frame bytes_buf lay data s1 of
                            None \<Rightarrow> None
                          | Some s2 \<Rightarrow>
                              (case sse_ready s2 of
                                 ev # rest \<Rightarrow>
                                   Some (Ready (Some (Inr ev)), False, s2\<lparr>sse_ready := rest\<rparr>)
                               | [] \<Rightarrow> Some (Pending, True, s2)))
                     | Inl _ \<Rightarrow> Some (Pending, True, s1))
                | Some (Inl e) \<Rightarrow> Some (Ready (Some (Inl e)), False, s1)
                | None \<Rightarrow> Some (Ready None, False, s1))))"

section \<open>The reference semantics\<close>

definition line_text :: "byte list \<Rightarrow> uchar list" where
  "line_text l = trim_end (from_utf8_lossy l)"

definition field_name :: "uchar list \<Rightarrow> uchar list" where
  "field_name line = fst (splitn2 (of_char CHR '':'') line)"

definition field_value :: "uchar list \<Rightarrow> uchar list" where
  "field_value line =
     (case snd (splitn2 (of_char CHR '':'') line) of Some v \<Rightarrow> trim_start v | None \<Rightarrow> [])"

text \<open>The values a block gives to a field, in order.\<close>

definition field_values :: "string \<Rightarrow> uchar list list \<Rightarrow> uchar list list" where
  "field_values name block = map field_value (filter (\<lambda>l. field_name l = str name) block)"

fun last_value :: "uchar list list \<Rightarrow> uchar list option" where
  "last_value [] = None"
| "last_value vs = Some (last vs)"

fun join_lines :: "uchar list list \<Rightarrow> uchar list" where
  "join_lines [] = []"
| "join_lines [v] = v"
| "join_lines (v # vs) = v @ 10 # join_lines vs"

text \<open>
  The last \<open>id\<close>, the last \<open>event\<close>, and the \<open>data\<close> values joined by line feeds
  once the empty values before the first non-empty one are gone.
\<close>

definition event_of_block :: "uchar list list \<Rightarrow> sse_event" where
  "event_of_block block =
     \<lparr>ev_id = last_value (field_values ''id'' block), ev_event = last_value (field_values ''event'' block),
      ev_data = join_lines (dropWhile (\<lambda>v. v = []) (field_values ''data'' block))\<rparr>"

text \<open>Blocks ended by an empty line, the first one continuing \<open>cur\<close>, and the open block.\<close>

fun blocks :: "uchar list list \<Rightarrow> uchar list list \<Rightarrow> uchar list list list \<times> uchar list list" where
  "blocks cur [] = ([], cur)"
| "blocks cur (l # ls) =
     (if l = [] then (case blocks [] ls of (bs, r) \<Rightarrow> (cur # bs, r)) else blocks (cur @ [l]) ls)"

definition sse_reference :: "byte list \<Rightarrow> sse_event list" where
  "sse_reference bs = map event_of_block (fst (blocks [] (map line_text (complete_lines bs))))"

definition sse_open_block :: "byte list \<Rightarrow> uchar list list" where
  "sse_open_block bs = snd (blocks [] (map line_text (complete_lines bs)))"

lemma blocks_append:
  "blocks cur (xs @ ys) =
     (fst (blocks cur xs) @ fst (blocks (snd (blocks cur xs)) ys),
      snd (blocks (snd (blocks cur xs)) ys))"
  by (induction cur xs rule: blocks.induct) (auto split: prod.splits)

section \<open>A line refines a step of the block\<close>

lemma field_values_snoc [simp]:
  "field_values name (block @ [l]) =
     (if field_name l = str name then field_values name block @ [field_value l] else field_values name block)"
  by (simp add: field_values_def)

lemma field_values_Nil [simp]: "field_values name [] = []"
  by (simp add: field_values_def)

lemma last_value_snoc [simp]: "last_value (vs @ [v]) = Some v"
  by (cases vs) auto

lemma join_lines_snoc: "vs \<noteq> [] \<Longrightarrow> join_lines (vs @ [v]) = join_lines vs @ 10 # v"
  by (induction vs rule: join_lines.induct) auto

lemma join_lines_Nil_iff: "vs = [] \<or> hd vs \<noteq> [] \<Longrightarrow> join_lines vs = [] \<longleftrightarrow> vs = []"
  by (induction vs rule: join_lines.induct) auto

lemma data_snoc:
  "join_lines (dropWhile (\<lambda>v. v = []) (vs @ [v])) =
     (let d = join_lines (dropWhile (\<lambda>v. v = []) vs) in if d = [] then v else d @ 10 # v)"
proof (cases "\<forall>x \<in> set vs. x = []")
  case True
  then have "dropWhile (\<lambda>v. v = []) vs = []" by (simp add: dropWhile_eq_Nil_conv)
  with True show ?thesis by (simp add: dropWhile_append Let_def del: dropWhile_eq_Nil_conv)
next
  case False
  let ?d = "dropWhile (\<lambda>v. v = []) vs"
  have ne: "?d \<noteq> []" using False by (auto simp: dropWhile_eq_Nil_conv)
  then have "hd ?d \<noteq> []" using hd_dropWhile by blast
  with ne have "join_lines ?d \<noteq> []" by (simp add: join_lines_Nil_iff)
  moreover have "dropWhile (\<lambda>v. v = []) (vs @ [v]) = ?d @ [v]"
    using False by (auto simp: dropWhile_append1)
  ultimately show ?thesis using ne by (simp add: Let_def join_lines_snoc)
qed

lemma field_names_distinct:
  "str ''data'' \<noteq> str ''id''" "str ''data'' \<noteq> str ''event''" "str ''id'' \<noteq> str ''event''"
  by (simp_all add: str_def)

lemma event_of_block_Nil [simp]: "event_of_block [] = default_event"
  by (simp add: event_of_block_def default_event_def)

text \<open>The queue and the open block of the parser, told apart from its other fields.\<close>

definition sse_at :: "uchar list list \<Rightarrow> sse_event list \<Rightarrow> 'body sse_stream \<Rightarrow> bool" where
  "sse_at cur evs s \<longleftrightarrow> sse_pending s = event_of_block cur \<and> sse_ready s = evs"

lemma sse_process_blank:
  "sse_at cur evs s \<Longrightarrow> sse_at [] (evs @ [event_of_block cur]) (sse_process_line [] s)"
  by (simp add: sse_at_def sse_process_line_def)

lemma sse_process_line_field:
  "line \<noteq> [] \<Longrightarrow>
   sse_process_line line s =
     (if field_name line = str ''data'' then
        s\<lparr>sse_pending := (sse_pending s)\<lparr>ev_data :=
             (if ev_data (sse_pending s) = [] then field_value line
              else ev_data (sse_pending s) @ 10 # field_value line)\<rparr>\<rparr>
      else if field_name line = str ''id'' then
        s\<lparr>sse_pending := (sse_pending s)\<lparr>ev_id := Some (field_value line)\<rparr>,
          sse_last_id := Some (field_value line)\<rparr>
      else if field_name line = str ''event'' then
        s\<lparr>sse_pending := (sse_pending s)\<lparr>ev_event := Some (field_value line)\<rparr>\<rparr>
      else s)"
proof -
  have nl: "str [CHR 0x0A] = [10]" by (simp add: str_def)
  assume "line \<noteq> []"
  then show ?thesis
    unfolding sse_process_line_def field_name_def [symmetric] field_value_def [symmetric] Let_def nl
    by (cases "ev_data (sse_pending s) = []") (simp_all only: if_False if_True append_Nil not_not
        append_Cons append_assoc not_False_eq_True not_True_eq_False simp_thms)
qed

lemma sse_process_field:
  assumes line: "line \<noteq> []" and at: "sse_at cur evs s"
  shows "sse_at (cur @ [line]) evs (sse_process_line line s)"
proof -
  note at' = at [unfolded sse_at_def event_of_block_def]
  note names = field_names_distinct field_names_distinct [symmetric]
  consider "field_name line = str ''data''" | "field_name line = str ''id''"
    | "field_name line = str ''event''"
    | "field_name line \<notin> {str ''data'', str ''id'', str ''event''}" by blast
  then show ?thesis
    unfolding sse_at_def event_of_block_def sse_process_line_field [OF line]
    by cases (use at' names in \<open>simp_all add: data_snoc Let_def\<close>)
qed

lemma sse_process_line_frame [simp]:
  "sse_buffer (sse_process_line line s) = sse_buffer s"
  "sse_body (sse_process_line line s) = sse_body s"
  "sse_line_buf (sse_process_line line s) = sse_line_buf s"
  unfolding sse_process_line_def Let_def
  by (simp_all cong: if_cong split del: if_split
      add: if_distrib [of sse_buffer] if_distrib [of sse_body] if_distrib [of sse_line_buf])

section \<open>The scanning loop over lines\<close>

definition sse_on_line :: "byte list \<Rightarrow> 'body sse_stream \<Rightarrow> 'body sse_stream" where
  "sse_on_line l s =
     (sse_process_line (line_text l) (s\<lparr>sse_line_buf := []\<rparr>))\<lparr>sse_line_buf := []\<rparr>"

interpretation sse: line_scanner "sse_scan lay" sse_buffer sse_on_line for lay
  by unfold_locales (simp_all add: ring_slice_eq sse_on_line_def line_text_def)

lemma sse_on_line_at:
  assumes "sse_at cur evs s"
  shows "sse_at (snd (blocks cur [line_text l]))
           (evs @ map event_of_block (fst (blocks cur [line_text l]))) (sse_on_line l s)"
proof -
  have at: "sse_at cur evs (s\<lparr>sse_line_buf := []\<rparr>)" using assms by (simp add: sse_at_def)
  show ?thesis
    using sse_process_blank [OF at] sse_process_field [OF _ at, of "line_text l"]
    by (auto simp: sse_on_line_def sse_at_def)
qed

lemma sse_fold_at:
  "sse_at cur evs s \<Longrightarrow>
   sse_at (snd (blocks cur (map line_text ls)))
     (evs @ map event_of_block (fst (blocks cur (map line_text ls)))) (fold sse_on_line ls s)"
proof (induction ls arbitrary: cur evs s)
  case (Cons l ls)
  have "blocks cur (map line_text (l # ls)) = blocks cur ([line_text l] @ map line_text ls)" by simp
  with Cons.IH [OF sse_on_line_at [OF Cons.prems, of l]] show ?case
    unfolding blocks_append by simp
qed simp

text \<open>The remembered identifier is the last one of the whole stream, blocks apart.\<close>

definition last_id_of :: "uchar list list \<Rightarrow> uchar list option" where
  "last_id_of ls = last_value (field_values ''id'' ls)"

lemma field_name_Nil [simp]: "field_name [] = []"
  by (simp add: field_name_def)

lemma sse_process_line_last_id:
  "sse_last_id (sse_process_line line s) =
     (if field_name line = str ''id'' then Some (field_value line) else sse_last_id s)"
proof (cases "line = []")
  case True
  then show ?thesis by (simp add: sse_process_line_def str_def)
next
  case False
  then show ?thesis
    using field_names_distinct by (simp add: sse_process_line_field if_distrib [of sse_last_id] cong: if_cong)
qed

lemma sse_on_line_last_id:
  "sse_last_id s = last_id_of ls \<Longrightarrow> sse_last_id (sse_on_line l s) = last_id_of (ls @ [line_text l])"
  by (simp add: sse_on_line_def last_id_of_def sse_process_line_last_id)

lemma sse_fold_last_id:
  "sse_last_id s = last_id_of ls \<Longrightarrow>
   sse_last_id (fold sse_on_line xs s) = last_id_of (ls @ map line_text xs)"
proof (induction xs arbitrary: s ls)
  case (Cons x xs)
  from Cons.IH [OF sse_on_line_last_id [OF Cons.prems, of x]] show ?case by simp
qed simp

lemma sse_on_line_frame:
  "sse_body (sse_on_line l s) = sse_body s" "sse_buffer (sse_on_line l s) = sse_buffer s"
  by (simp_all add: sse_on_line_def)

lemma sse_fold_frame:
  "sse_body (fold sse_on_line ls s) = sse_body s" "sse_buffer (fold sse_on_line ls s) = sse_buffer s"
  by (induction ls arbitrary: s) (simp_all add: sse_on_line_frame)

section \<open>Appending a frame\<close>

text \<open>The state of a parser that has consumed exactly the bytes \<open>bs\<close>.\<close>

definition sse_tracks :: "'body sse_stream \<Rightarrow> byte list \<Rightarrow> bool" where
  "sse_tracks s bs \<longleftrightarrow>
     sse_buffer s = unterminated bs \<and> sse_pending s = event_of_block (sse_open_block bs) \<and>
     sse_last_id s = last_id_of (map line_text (complete_lines bs))"

text \<open>The events a chunk completes.\<close>

definition sse_new_events :: "byte list \<Rightarrow> byte list \<Rightarrow> sse_event list" where
  "sse_new_events bs d =
     map event_of_block
       (fst (blocks (sse_open_block bs) (map line_text (complete_lines (unterminated bs @ d)))))"

lemma sse_reference_append: "sse_reference (bs @ d) = sse_reference bs @ sse_new_events bs d"
  by (simp add: sse_reference_def sse_new_events_def sse_open_block_def complete_lines_append [of bs d]
      blocks_append)

lemma sse_open_block_append:
  "sse_open_block (bs @ d) =
     snd (blocks (sse_open_block bs) (map line_text (complete_lines (unterminated bs @ d))))"
  by (simp add: sse_open_block_def complete_lines_append [of bs d] blocks_append)

lemma sse_append_correct:
  assumes "buf_laws B content" and tracks: "sse_tracks s bs"
  shows "\<exists>s'. sse_append_frame B lay frame s = Some s' \<and> sse_tracks s' (bs @ content frame) \<and>
           sse_ready s' = sse_ready s @ sse_new_events bs (content frame) \<and>
           sse_body s' = sse_body s"
proof -
  define buf where "buf = unterminated bs @ content frame"
  let ?new = "content frame" and ?lines = "complete_lines buf"
  let ?s0 = "s\<lparr>sse_buffer := buf\<rparr>"
  let ?s1 = "fold sse_on_line ?lines ?s0"
  note t = tracks [unfolded sse_tracks_def]
  have fill: "fill B frame (sse_buffer s) = Some buf"
    using t by (simp add: buf_laws.fill_content [OF assms(1)] buf_def)
  have scan: "sse_scan lay [length (sse_buffer s)..<length buf] 0 ?s0 =
      Some (length buf - length (unterminated buf), ?s1)"
    unfolding buf_def conjunct1 [OF t] by (rule sse.scan_correct) simp_all
  have result: "sse_append_frame B lay frame s = Some (?s1\<lparr>sse_buffer := unterminated buf\<rparr>)"
    by (simp add: sse_append_frame_def Let_def fill scan sse_fold_frame drop_processed)
  note append = complete_lines_append [of bs ?new, folded buf_def]
    unterminated_append [of bs ?new, folded buf_def]
    sse_open_block_append [of bs ?new, folded buf_def]
    sse_new_events_def [of bs ?new, folded buf_def]
  have "sse_at (sse_open_block bs) (sse_ready s) ?s0" using t by (simp add: sse_at_def)
  from sse_fold_at [OF this, of ?lines]
  have "sse_pending ?s1 = event_of_block (sse_open_block (bs @ ?new))"
    and ready: "sse_ready ?s1 = sse_ready s @ sse_new_events bs ?new"
    by (simp_all add: sse_at_def append)
  moreover have "sse_last_id ?s1 = last_id_of (map line_text (complete_lines (bs @ ?new)))"
    using sse_fold_last_id [of ?s0 _ ?lines] t by (simp add: append)
  ultimately show ?thesis
    by (simp add: result sse_tracks_def sse_fold_frame append)
qed

section \<open>The stream over a body\<close>

definition sse_queue :: "'body sse_stream \<Rightarrow> ('e + sse_event) list" where
  "sse_queue s = map Inr (sse_ready s)"

definition sse_body_outcome ::
  "('body \<Rightarrow> (byte list, 'e) outcome \<times> 'body) \<Rightarrow> 'body sse_stream \<Rightarrow> (byte list, 'e) outcome" where
  "sse_body_outcome poll_frame s = fst (poll_frame (sse_body s))"

lemma sse_tracks_body [simp]:
  "sse_tracks (s\<lparr>sse_body := b\<rparr>) bs = sse_tracks s bs"
  "sse_tracks (s\<lparr>sse_ready := q\<rparr>) bs = sse_tracks s bs"
  by (simp_all add: sse_tracks_def)

lemma sse_poll_data:
  assumes "sse_ready s = []" and "sse_tracks s bs"
    and body: "poll_frame (sse_body s) = (Ready (Some (Inr (DataFrame d))), b)"
  shows "\<exists>s' r w. deliver (map Inr (sse_new_events bs d)) = (r, w) \<and>
           sse_poll_next poll_frame lay s = Some (r, w, s') \<and>
           sse_ready s' = tl (sse_new_events bs d) \<and> sse_tracks s' (bs @ d)"
proof -
  obtain s2 where "sse_append_frame bytes_buf lay d (s\<lparr>sse_body := b\<rparr>) = Some s2"
      "sse_tracks s2 (bs @ d)" "sse_ready s2 = sse_new_events bs d"
    using sse_append_correct [OF contiguous.buf_laws_axioms, of "s\<lparr>sse_body := b\<rparr>" bs lay d] assms
    by auto
  then show ?thesis
    using assms by (cases "sse_new_events bs d") (auto simp: sse_poll_next_def deliver_def)
qed

interpretation sse_stream: framed_stream "sse_poll_next poll_frame lay" "sse_body_outcome poll_frame"
    sse_queue "\<lambda>bs. map Inr (sse_reference bs)" sse_tracks
  for poll_frame lay
proof
  fix s :: "'a sse_stream" and d bs
  assume q: "sse_queue s = []" and "sse_body_outcome poll_frame s = Ready (Some (Inr (DataFrame d)))"
    and "sse_tracks s bs"
  then show "\<exists>s' q r w. map Inr (sse_reference (bs @ d)) = map Inr (sse_reference bs) @ q \<and>
      deliver q = (r, w) \<and> sse_poll_next poll_frame lay s = Some (r, w, s') \<and>
      sse_queue s' = tl q \<and> sse_tracks s' (bs @ d)"
    using sse_poll_data [of s bs poll_frame d "snd (poll_frame (sse_body s))" lay]
    by (auto simp: sse_queue_def sse_body_outcome_def sse_reference_append map_tl prod_eq_iff)
qed (auto simp: sse_queue_def sse_body_outcome_def sse_poll_next_def split: prod.splits)

lemma sse_append_body:
  "sse_tracks s bs \<Longrightarrow> sse_append_frame bytes_buf lay d s = Some s' \<Longrightarrow> sse_body s' = sse_body s"
  using sse_append_correct [OF contiguous.buf_laws_axioms, of s bs lay d] by auto

interpretation sse_over_body: body_stream "sse_poll_next poll_frame lay" "sse_body_outcome poll_frame"
    sse_queue "\<lambda>bs. map Inr (sse_reference bs)" sse_tracks poll_frame sse_body
  for poll_frame lay
  by unfold_locales
    (auto simp: sse_body_outcome_def sse_queue_def sse_poll_next_def Let_def dest!: sse_append_body [rotated]
      split: list.splits prod.splits poll.splits option.splits sum.splits)

section \<open>Properties of the stream\<close>

lemma sse_new_tracks:
  "sse_tracks (sse_new B map_frame box_new body) []" "sse_queue (sse_new B map_frame box_new body) = []"
  by (simp_all add: sse_tracks_def sse_new_def Let_def sse_queue_def sse_open_block_def
      complete_lines_def unterminated_def last_id_of_def)

lemma sse_reference_Nil [simp]: "sse_reference [] = []"
  by (simp add: sse_reference_def complete_lines_def)

definition sse_polls ::
  "('body \<Rightarrow> (byte list, 'e) outcome \<times> 'body) \<Rightarrow> (byte list \<Rightarrow> nat) \<Rightarrow> nat \<Rightarrow> 'body sse_stream \<Rightarrow>
   ((sse_event, 'e) poll_log list \<times> 'body sse_stream) option" where
  "sse_polls poll_frame lay =
     run_polls (sse_poll_next poll_frame lay) (asks (sse_body_outcome poll_frame) sse_queue)"

lemma sse_polls_correct:
  "\<exists>log s'. sse_polls poll_frame lay n (sse_new B map_frame box_new body) = Some (log, s') \<and>
     length log = n \<and> list_all log_fair log \<and> sse_tracks s' (delivered log) \<and>
     items log @ sse_queue s' = map Inr (sse_reference (delivered log))"
  using sse_stream.run_correct [OF sse_new_tracks(1), of "[]" B map_frame box_new body poll_frame lay n]
  by (simp add: sse_new_tracks sse_polls_def)

lemma sse_polls_body:
  assumes "sse_polls poll_frame lay n (sse_new B map_frame box_new body) = Some (log, s')"
  shows "\<exists>k \<le> n. delivered log = data_bytes (poll_n poll_frame k (box_new (map_frame (map_data (to_bytes B)) body)))"
  using sse_over_body.outcomes_are_polls [OF sse_new_tracks(1), of poll_frame lay n B map_frame box_new body] assms
  by (auto simp: sse_polls_def delivered_outcomes sse_new_def Let_def)

text \<open>
  C1: However the body cuts its bytes into frames, interleaves them with pending polls, trailers
  and errors, and however the ring buffer is laid out, any number of polls of a new
  \<open>SseStream\<close> returns; the events handed out, followed by those still queued, are exactly the
  events of the bytes delivered so far, those of the first \<open>k\<close> polls of the body (\<open>sse_reference\<close>: complete lines, lossily decoded,
  trimmed at the end, cut into blocks at empty lines), the buffer holds exactly the
  unterminated rest, and \<open>last_event_id\<close> is the last \<open>id\<close> field of the stream.
\<close>

theorem sse_stream_refines_reference:
  "\<exists>log s' k. sse_polls poll_frame lay n (sse_new B map_frame box_new body) = Some (log, s') \<and>
     length log = n \<and> k \<le> n \<and>
     delivered log = data_bytes (poll_n poll_frame k (box_new (map_frame (map_data (to_bytes B)) body))) \<and>
     items log @ map Inr (sse_ready s') = map Inr (sse_reference (delivered log)) \<and>
     sse_buffer s' = unterminated (delivered log) \<and>
     sse_last_event_id s' = last_id_of (map line_text (complete_lines (delivered log)))"
  using sse_polls_correct [of poll_frame lay n B map_frame box_new body] sse_polls_body
  by (fastforce simp: sse_queue_def sse_tracks_def sse_last_event_id_def)

text \<open>
  No poll of an \<open>SseStream\<close> loses its task: whenever \<open>poll_next\<close> answers \<open>Pending\<close>, either
  the body itself is pending (and holds the waker) or the stream woke its own task; the
  stream ends exactly when the body ends, and an error of the body comes out unchanged.
\<close>

theorem sse_poll_fair:
  "\<exists>log s'. sse_polls poll_frame lay n (sse_new B map_frame box_new body) = Some (log, s') \<and>
     list_all log_fair log"
  using sse_polls_correct [of poll_frame lay n B map_frame box_new body] by blast

lemma sse_to_end:
  assumes "poll_n poll_frame (Suc (length os)) (box_new (map_frame (map_data (to_bytes B)) body)) = os @ [Ready None]"
    and "Ready None \<notin> set os"
  shows "\<exists>n log l s'. sse_polls poll_frame lay n (sse_new B map_frame box_new body) = Some (log @ [l], s') \<and>
           log_result l = Ready None \<and> list_all (\<lambda>l. log_result l \<noteq> Ready None) log \<and>
           list_all log_fair (log @ [l]) \<and> outcomes (log @ [l]) = os @ [Ready None] \<and>
           items log = map Inr (sse_reference (data_bytes os))"
proof -
  have "poll_n poll_frame (Suc (length os)) (sse_body (sse_new B map_frame box_new body)) = os @ [Ready None]"
    using assms(1) by (simp add: sse_new_def Let_def)
  from sse_over_body.polls_to_end [OF sse_new_tracks(1) this assms(2), of "[]" lay]
  show ?thesis by (simp add: sse_new_tracks sse_polls_def)
qed

text \<open>
  C3: A caller who polls an \<open>SseStream\<close> until it ends gets everything: when the body answers
  \<open>os\<close> (pending polls, frames, trailers and errors in any order) and then ends, some number of polls
  ends the stream at its last poll and not before; the stream asks the body for all of \<open>os\<close>,
  the events handed out are exactly those of all the data in it, and every poll is fair: it
  sleeps only while the body holds the waker, and an error of the body comes out unchanged.
\<close>

theorem sse_complete:
  assumes "poll_n poll_frame (Suc (length os)) (box_new (map_frame (map_data (to_bytes B)) body)) = os @ [Ready None]"
    and "Ready None \<notin> set os"
  shows "\<exists>n log l s'. sse_polls poll_frame lay n (sse_new B map_frame box_new body) = Some (log @ [l], s') \<and>
           log_result l = Ready None \<and> list_all (\<lambda>l. log_result l \<noteq> Ready None) log \<and>
           list_all log_fair (log @ [l]) \<and> outcomes (log @ [l]) = os @ [Ready None] \<and>
           items log = map Inr (sse_reference (data_bytes os))"
  using assms by (rule sse_to_end)

theorem sse_complete_witness:
  "\<exists>n log l s'. sse_polls poll_script (\<lambda>_. 2) n (sse_new bytes_buf (\<lambda>_ b. b) (\<lambda>b. b)
        [Ready (Some (Inr (DataFrame [100, 97, 116]))), Pending, Ready (Some (Inl (7::nat))),
         Ready (Some (Inr (DataFrame [97, 58, 120, 10, 10])))]) = Some (log @ [l], s') \<and>
     log_result l = Ready None \<and> list_all (\<lambda>l. log_result l \<noteq> Ready None) log \<and>
     list_all log_fair (log @ [l]) \<and>
     outcomes (log @ [l]) = [Ready (Some (Inr (DataFrame [100, 97, 116]))), Pending, Ready (Some (Inl 7)),
       Ready (Some (Inr (DataFrame [97, 58, 120, 10, 10])))] @ [Ready None] \<and>
     items log = map Inr (sse_reference (data_bytes [Ready (Some (Inr (DataFrame [100, 97, 116]))), Pending,
       Ready (Some (Inl (7::nat))), Ready (Some (Inr (DataFrame [97, 58, 120, 10, 10])))]))"
  by (rule sse_complete) simp_all

text \<open>
  C32: \<open>append_frame\<close> on any lawful buffer, contiguous or in chunks, terminates without a slice
  out of range, consumes the whole buffer, and queues exactly the events that the new bytes
  complete.
\<close>

theorem sse_append_frame_correct:
  assumes "buf_laws B content" and "sse_tracks s bs"
  shows "\<exists>s' evs. sse_append_frame B lay frame s = Some s' \<and>
           sse_reference (bs @ content frame) = sse_reference bs @ evs \<and>
           sse_ready s' = sse_ready s @ evs \<and> sse_body s' = sse_body s \<and>
           sse_tracks s' (bs @ content frame)"
  using sse_append_correct [OF assms, of lay frame] by (auto simp: sse_reference_append)

definition sample_stream :: "unit sse_stream" where
  "sample_stream = sse_new bytes_buf (\<lambda>_ b. b) (\<lambda>b. b) ()"

theorem sse_append_frame_correct_witness:
  "\<exists>s' evs. sse_append_frame rope_buf (\<lambda>_. 3) [[100, 97], [116, 97, 58, 120, 10], [10, 105]] sample_stream
       = Some s' \<and>
     sse_reference ([] @ concat [[100, 97], [116, 97, 58, 120, 10], [10, 105]]) = sse_reference [] @ evs \<and>
     sse_ready s' = sse_ready sample_stream @ evs \<and> sse_body s' = sse_body sample_stream \<and>
     sse_tracks s' ([] @ concat [[100, 97], [116, 97, 58, 120, 10], [10, 105]])"
  by (rule sse_append_frame_correct [OF rope.buf_laws_axioms])
    (simp add: sample_stream_def sse_new_tracks)

text \<open>
  An empty line dispatches an event even when no field was read: every blank line at the
  start of a block yields the default event with empty data, which a reader of the
  specification of Server-Sent Events would not see.
\<close>

theorem sse_blank_line_dispatches: "sse_reference (newline # bs) = default_event # sse_reference bs"
  by (simp add: sse_reference_def complete_lines_def line_text_def trim_end_def split: prod.splits)

end
