(* ===== verification/SseFormat.thy ===== *)
theory SseFormat
  imports Sse
begin

text \<open>
  What a server writes and \<open>SseStream\<close> reads back: \<open>wire_event\<close> is the text form of
  an event (an \<open>id\<close> line, an \<open>event\<close> line, one \<open>data\<close> line per line of data, an
  empty line).  The round-trip theorem says what the parser makes of every such event (\<open>read_event\<close>), and
  for which values (\<open>valid_event\<close>) it recovers the event unchanged.
\<close>

definition clean :: "uchar list \<Rightarrow> bool" where
  "clean v \<longleftrightarrow> (\<forall>c \<in> set v. scalar c \<and> c \<noteq> 10) \<and>
     (v = [] \<or> \<not> is_whitespace (hd v) \<and> \<not> is_whitespace (last v))"

definition format_field :: "string \<Rightarrow> uchar list \<Rightarrow> uchar list" where
  "format_field name v = str name @ [58, 32] @ v"

fun format_opt :: "string \<Rightarrow> uchar list option \<Rightarrow> uchar list list" where
  "format_opt name None = []"
| "format_opt name (Some v) = [format_field name v]"

definition event_lines ::
  "uchar list option \<Rightarrow> uchar list option \<Rightarrow> uchar list list \<Rightarrow> uchar list list" where
  "event_lines i e ds = format_opt ''id'' i @ format_opt ''event'' e @ map (format_field ''data'') ds"

definition wire_lines :: "uchar list list \<Rightarrow> byte list" where
  "wire_lines ls = concat (map (\<lambda>l. str_bytes l @ [newline]) ls)"

definition wire_event :: "uchar list option \<Rightarrow> uchar list option \<Rightarrow> uchar list list \<Rightarrow> byte list" where
  "wire_event i e ds = wire_lines (event_lines i e ds @ [[]])"

definition valid_event :: "uchar list option \<Rightarrow> uchar list option \<Rightarrow> uchar list list \<Rightarrow> bool" where
  "valid_event i e ds \<longleftrightarrow> pred_option clean i \<and> pred_option clean e \<and> list_all clean ds \<and>
     (ds = [] \<or> hd ds \<noteq> [])"

section \<open>Bytes of a line\<close>

lemma byte_of_newline: "n < 256 \<Longrightarrow> byte_of n = newline \<longleftrightarrow> n = 10"
  by (simp add: word_unat_eq_iff)

lemma encode_char_newline:
  assumes "scalar c" and "c \<noteq> 10"
  shows "newline \<notin> set (encode_char c)"
proof -
  have "c < 1114112" using assms by (auto simp: scalar_def)
  then have "c div 262144 < 5" by linarith
  moreover have "c < 65536 \<Longrightarrow> c div 4096 < 16" and "c < 2048 \<Longrightarrow> c div 64 < 32" by linarith+
  ultimately show ?thesis using assms
    by (simp add: encode_char_def byte_of_newline [symmetric] eq_commute [of newline])
      (auto simp: byte_of_newline)
qed

lemma str_bytes_newline: "\<forall>c \<in> set s. scalar c \<and> c \<noteq> 10 \<Longrightarrow> newline \<notin> set (str_bytes s)"
  by (induction s) (auto simp: encode_char_newline)

lemma line_text_str_bytes: "\<forall>c \<in> set s. scalar c \<Longrightarrow> line_text (str_bytes s) = trim_end s"
  by (simp add: line_text_def from_utf8_lossy_str_bytes)

text \<open>The lines of a wire text are the lines it was made of.\<close>

definition line_ok :: "uchar list \<Rightarrow> bool" where
  "line_ok l \<longleftrightarrow> (\<forall>c \<in> set l. scalar c \<and> c \<noteq> 10)"

lemma wire_complete_lines:
  "list_all line_ok ls \<Longrightarrow> complete_lines (wire_lines ls @ bs) = map str_bytes ls @ complete_lines bs"
proof (induction ls)
  case (Cons l ls)
  have "wire_lines (l # ls) @ bs = str_bytes l @ newline # (wire_lines ls @ bs)"
    by (simp add: wire_lines_def)
  then show ?case using Cons
    by (simp add: complete_lines_terminated str_bytes_newline line_ok_def)
qed (simp add: wire_lines_def)

lemma wire_line_texts:
  "list_all line_ok ls \<Longrightarrow>
   map line_text (complete_lines (wire_lines ls @ bs)) =
   map trim_end ls @ map line_text (complete_lines bs)"
  by (auto simp: wire_complete_lines line_text_str_bytes line_ok_def list_all_iff)

section \<open>A formatted field is read back\<close>

lemma str_ascii: "c \<in> set (str s) \<Longrightarrow> c < 256"
  by (auto simp: str_def)

definition plain_name :: "string \<Rightarrow> bool" where
  "plain_name name \<longleftrightarrow> 58 \<notin> set (str name) \<and> 10 \<notin> set (str name) \<and> name \<noteq> []"

lemma plain_names: "plain_name ''id''" "plain_name ''event''" "plain_name ''data''"
  by (simp_all add: plain_name_def str_def)

lemma format_field_ok: "line_ok v \<Longrightarrow> plain_name name \<Longrightarrow> line_ok (format_field name v)"
  using str_ascii [of _ name]
  by (fastforce simp: line_ok_def format_field_def plain_name_def scalar_def)

lemma trim_end_append: "trim_end (s @ v) = (if trim_end v = [] then trim_end s else s @ trim_end v)"
  by (auto simp: trim_end_def dropWhile_append dropWhile_eq_Nil_conv simp del: set_rev)

lemma trim_end_colon: "trim_end (s @ [58, 32]) = s @ [58]"
  by (simp add: trim_end_def is_whitespace_def)

text \<open>What is left of a value on its way: the white space at its ends is gone.\<close>

definition stripped :: "uchar list \<Rightarrow> uchar list" where
  "stripped v = trim_start (trim_end v)"

lemma stripped_clean: "clean v \<Longrightarrow> stripped v = v"
  by (auto simp: stripped_def clean_def trim_end_id trim_start_id)

lemma clean_line_ok: "clean v \<Longrightarrow> line_ok v"
  by (auto simp: clean_def line_ok_def)

lemma field_of_format:
  assumes "plain_name name"
  shows "field_name (trim_end (format_field name v)) = str name"
    and "field_value (trim_end (format_field name v)) = stripped v"
    and "trim_end (format_field name v) \<noteq> []"
proof -
  have split: "splitn2 58 (str name @ 58 # t) = (str name, Some t)" for t
    using assms by (simp add: plain_name_def splitn2_append)
  have start: "trim_start (32 # t) = trim_start t" "trim_start [] = []" for t
    by (simp_all add: trim_start_def is_whitespace_def)
  have trimmed: "trim_end (format_field name v) =
      str name @ 58 # (if trim_end v = [] then [] else 32 # trim_end v)"
    using trim_end_append [of "str name @ [58, 32]" v] trim_end_colon [of "str name"]
    by (simp add: format_field_def)
  then show "field_name (trim_end (format_field name v)) = str name"
    and "field_value (trim_end (format_field name v)) = stripped v"
    using split start by (simp_all add: field_name_def field_value_def stripped_def)
  show "trim_end (format_field name v) \<noteq> []" by (simp add: trimmed)
qed

lemma field_values_format:
  "plain_name name \<Longrightarrow>
   field_values other (map (\<lambda>v. trim_end (format_field name v)) vs) =
     (if str name = str other then map stripped vs else [])"
  by (induction vs) (auto simp: field_values_def field_of_format)

lemma field_values_append [simp]:
  "field_values name (xs @ ys) = field_values name xs @ field_values name ys"
  by (simp add: field_values_def)

lemma field_values_opt:
  "plain_name name \<Longrightarrow>
   field_values other (map trim_end (format_opt name i)) =
     (if str name = str other then (case i of None \<Rightarrow> [] | Some v \<Rightarrow> [stripped v]) else [])"
  by (cases i) (auto simp: field_values_def field_of_format)

text \<open>
  What can be written: strings without line feeds.  What is read for it: the stripped values, and the
  lines of data from the first one on that is not empty.
\<close>

definition writable :: "uchar list option \<Rightarrow> uchar list option \<Rightarrow> uchar list list \<Rightarrow> bool" where
  "writable i e ds \<longleftrightarrow> pred_option line_ok i \<and> pred_option line_ok e \<and> list_all line_ok ds"

definition read_event :: "uchar list option \<Rightarrow> uchar list option \<Rightarrow> uchar list list \<Rightarrow> sse_event" where
  "read_event i e ds =
     \<lparr>ev_id = map_option stripped i, ev_event = map_option stripped e,
      ev_data = join_lines (dropWhile (\<lambda>v. v = []) (map stripped ds))\<rparr>"

lemma read_event_valid:
  assumes "valid_event i e ds"
  shows "writable i e ds" and "read_event i e ds = \<lparr>ev_id = i, ev_event = e, ev_data = join_lines ds\<rparr>"
proof -
  show "writable i e ds"
    using assms by (cases i; cases e) (auto simp: valid_event_def writable_def list_all_iff clean_line_ok)
  have "map stripped ds = ds" "map_option stripped i = i" "map_option stripped e = e"
    using assms by (cases i; cases e; auto simp: valid_event_def list_all_iff stripped_clean intro: map_idI)+
  moreover have "dropWhile (\<lambda>v. v = []) ds = ds"
    using assms by (cases ds) (auto simp: valid_event_def)
  ultimately show "read_event i e ds = \<lparr>ev_id = i, ev_event = e, ev_data = join_lines ds\<rparr>"
    by (simp add: read_event_def)
qed

lemma event_of_lines: "event_of_block (map trim_end (event_lines i e ds)) = read_event i e ds"
proof -
  note names = field_names_distinct field_names_distinct [symmetric]
  show ?thesis using names
    by (simp add: event_of_block_def event_lines_def read_event_def field_values_opt plain_names
        field_values_format [unfolded comp_def] comp_def split: option.splits)
qed

lemma event_lines_ok: "writable i e ds \<Longrightarrow> list_all line_ok (event_lines i e ds)"
  by (cases i; cases e)
    (auto simp: event_lines_def writable_def format_field_ok plain_names list_all_iff)

lemma event_lines_nonempty: "l \<in> set (event_lines i e ds) \<Longrightarrow> trim_end l \<noteq> []"
  by (cases i; cases e) (auto simp: event_lines_def field_of_format plain_names)

lemma blocks_nonempty:
  "(\<And>l. l \<in> set ls \<Longrightarrow> l \<noteq> []) \<Longrightarrow> blocks cur (ls @ [] # rest) =
     ((cur @ ls) # fst (blocks [] rest), snd (blocks [] rest))"
proof (induction ls arbitrary: cur)
  case (Cons l ls)
  then show ?case by simp
qed (simp split: prod.splits)

lemma wire_event_read:
  assumes "writable i e ds"
  shows "sse_reference (wire_event i e ds @ bs) = read_event i e ds # sse_reference bs"
proof -
  have ok: "list_all line_ok (event_lines i e ds @ [[]])"
    using event_lines_ok [OF assms] by (simp add: line_ok_def)
  have "blocks [] (map trim_end (event_lines i e ds) @ [] # rest) =
      (map trim_end (event_lines i e ds) # fst (blocks [] rest), snd (blocks [] rest))" for rest
    by (subst blocks_nonempty) (use event_lines_nonempty in auto)
  moreover have "trim_end [] = []" by (simp add: trim_end_def)
  ultimately show ?thesis
    unfolding sse_reference_def wire_event_def wire_line_texts [OF ok]
    by (simp add: event_of_lines)
qed

text \<open>
  The parser reads back what a server wrote: an event whose field values have no line feed and
  no white space at their ends, and whose data does not start with an empty line, is
  recovered field by field from its text form, and the bytes after it are parsed as if they
  stood alone.
\<close>

theorem sse_roundtrip:
  assumes "valid_event i e ds"
  shows "sse_reference (wire_event i e ds @ bs) =
     \<lparr>ev_id = i, ev_event = e, ev_data = join_lines ds\<rparr> # sse_reference bs"
  using wire_event_read [OF read_event_valid(1) [OF assms]] read_event_valid(2) [OF assms] by simp

theorem sse_roundtrip_witness:
  "sse_reference (wire_event (Some (str ''7'')) None [str ''hello'', [], [8364, 33]] @ []) =
   \<lparr>ev_id = Some (str ''7''), ev_event = None, ev_data = join_lines [str ''hello'', [], [8364, 33]]\<rparr>
     # sse_reference []"
  by (rule sse_roundtrip)
    (simp add: valid_event_def clean_def str_def scalar_def is_whitespace_def)

text \<open>The fields of a block in any order, unknown ones and repetitions included.\<close>

definition fields_named :: "string \<Rightarrow> (string \<times> uchar list) list \<Rightarrow> uchar list list" where
  "fields_named name fs = map snd (filter (\<lambda>f. fst f = name) fs)"

lemma str_inject: "str s = str t \<longleftrightarrow> s = t"
  by (simp add: str_def inj_map_eq_map inj_def)

lemma field_values_fields:
  "list_all (\<lambda>(name, v). plain_name name \<and> clean v) fs \<Longrightarrow>
   field_values name (map trim_end (map (case_prod format_field) fs)) = fields_named name fs"
  by (induction fs) (auto simp: field_values_def fields_named_def field_of_format str_inject stripped_clean)

lemma sse_fields_read:
  assumes "list_all (\<lambda>(name, v). plain_name name \<and> clean v) fs"
  shows "sse_reference (wire_lines (map (case_prod format_field) fs @ [[]]) @ bs) =
     \<lparr>ev_id = last_value (fields_named ''id'' fs), ev_event = last_value (fields_named ''event'' fs),
      ev_data = join_lines (dropWhile (\<lambda>v. v = []) (fields_named ''data'' fs))\<rparr> # sse_reference bs"
proof -
  have ok: "list_all line_ok (map (case_prod format_field) fs @ [[]])"
    using assms by (auto simp: list_all_iff format_field_ok clean_line_ok) (simp add: line_ok_def)
  let ?ls = "map trim_end (map (case_prod format_field) fs)"
  have "l \<noteq> []" if "l \<in> set ?ls" for l
    using that assms by (auto simp: list_all_iff field_of_format)
  then have blocks: "blocks [] (?ls @ [] # rest) = (?ls # fst (blocks [] rest), snd (blocks [] rest))" for rest
    using blocks_nonempty [of ?ls "[]" rest] by simp
  have "map trim_end (map (case_prod format_field) fs @ [[]]) @ rest = ?ls @ [] # rest" for rest
    by (simp add: trim_end_def [of "[]"])
  then show ?thesis
    unfolding sse_reference_def wire_line_texts [OF ok]
    by (simp only: blocks fst_conv list.map event_of_block_def field_values_fields [OF assms])
qed

lemma sse_reference_wire:
  "list_all (\<lambda>(i, e, ds). writable i e ds) evs \<Longrightarrow>
   sse_reference (concat (map (\<lambda>(i, e, ds). wire_event i e ds) evs) @ bs) =
     map (\<lambda>(i, e, ds). read_event i e ds) evs @ sse_reference bs"
  by (induction evs) (auto simp: wire_event_read)

text \<open>
  C26: From a server to the reader of an \<open>SseStream\<close>: once the body has delivered the text form of a sequence of
  events, whose values are strings without line feeds, in frames cut anywhere, the events that the polls have handed
  out, followed by those still queued, are these events, in order and field by field, with the white space at
  both ends of each value and the empty lines at the start of the data removed, and then what the rest of the
  bytes holds.  So an event comes back unchanged if no value has white space at an end and its first line
  of data, if it has data, is not empty.
\<close>

theorem sse_delivers_events:
  assumes "list_all (\<lambda>(i, e, ds). writable i e ds) evs"
    and "sse_polls poll_frame lay n (sse_new B map_frame box_new body) = Some (log, s')"
    and "delivered log = concat (map (\<lambda>(i, e, ds). wire_event i e ds) evs) @ rest"
  shows "items log @ map Inr (sse_ready s') =
      map (\<lambda>(i, e, ds). Inr \<lparr>ev_id = map_option stripped i, ev_event = map_option stripped e,
        ev_data = join_lines (dropWhile (\<lambda>v. v = []) (map stripped ds))\<rparr>) evs @ map Inr (sse_reference rest) \<and>
    (list_all (\<lambda>(i, e, ds). valid_event i e ds) evs \<longrightarrow>
      items log @ map Inr (sse_ready s') =
        map (\<lambda>(i, e, ds). Inr \<lparr>ev_id = i, ev_event = e, ev_data = join_lines ds\<rparr>) evs @ map Inr (sse_reference rest))"
proof -
  have read: "items log @ map Inr (sse_ready s') = map (\<lambda>(i, e, ds). Inr (read_event i e ds)) evs @ map Inr (sse_reference rest)"
    using sse_polls_correct [of poll_frame lay n B map_frame box_new body] assms(2)
      sse_reference_wire [OF assms(1), of rest, folded assms(3)]
    by (auto simp: sse_queue_def case_prod_unfold)
  have "map (\<lambda>(i, e, ds). Inr (read_event i e ds) :: 'a + sse_event) evs =
      map (\<lambda>(i, e, ds). Inr \<lparr>ev_id = i, ev_event = e, ev_data = join_lines ds\<rparr>) evs"
    if "list_all (\<lambda>(i, e, ds). valid_event i e ds) evs"
    using that by (auto simp: list_all_iff read_event_valid(2))
  with read show ?thesis by (simp add: read_event_def)
qed

text \<open>A body that is pending first and then delivers an event and the beginning of another one.\<close>

definition late_text :: "byte list" where
  "late_text = wire_event (Some [32, 55]) None [[], [120, 32], []]"

definition late_body :: "(byte list, nat) outcome list" where
  "late_body = [Pending, Ready (Some (Inr (DataFrame (late_text @ [100, 97]))))]"

definition late_stream :: "(byte list, nat) outcome list sse_stream" where
  "late_stream = sse_new bytes_buf (\<lambda>_ b. b) (\<lambda>b. b) late_body"

lemma late_stream_delivered:
  assumes "sse_polls poll_script lay 2 late_stream = Some (log, s')"
  shows "delivered log = late_text @ [100, 97]"
proof -
  have "sse_poll_next poll_script lay late_stream = Some (Pending, False, late_stream\<lparr>sse_body := tl late_body\<rparr>)"
    by (simp add: sse_poll_next_def late_stream_def sse_new_def late_body_def)
  then show ?thesis
    using assms
    by (cases "sse_poll_next poll_script lay (late_stream\<lparr>sse_body := tl late_body\<rparr>)")
      (auto simp: sse_polls_def numeral_2_eq_2 asks_def sse_queue_def sse_body_outcome_def late_stream_def
        sse_new_def late_body_def)
qed

theorem sse_delivers_events_witness:
  "\<exists>log s'. sse_polls poll_script (\<lambda>_. 2) 2 late_stream = Some (log, s') \<and>
     items log @ map Inr (sse_ready s') = [Inr \<lparr>ev_id = Some [55], ev_event = None, ev_data = [120, 10]\<rparr>]"
proof -
  obtain log s' where run: "sse_polls poll_script (\<lambda>_. 2) 2 late_stream = Some (log, s')"
    using sse_polls_correct [of poll_script "\<lambda>_. 2" 2 bytes_buf "\<lambda>_ b. b" "\<lambda>b. b" late_body]
    by (auto simp: late_stream_def)
  have "list_all (\<lambda>(i, e, ds). writable i e ds) [(Some [32, 55], None, [[], [120, 32], []])]"
    by (simp add: writable_def line_ok_def scalar_def)
  moreover have "delivered log =
      concat (map (\<lambda>(i, e, ds). wire_event i e ds) [(Some [32, 55], None, [[], [120, 32], []])]) @ [100, 97]"
    using late_stream_delivered [OF run] by (simp add: late_text_def)
  moreover have "sse_reference [100, 97] = []"
    by (simp add: sse_reference_def complete_lines_def)
  ultimately show ?thesis
    using sse_delivers_events [OF _ run [unfolded late_stream_def]] run
    by (fastforce simp: stripped_def trim_end_def trim_start_def is_whitespace_def)
qed

text \<open>
  A field value loses all the white space before it, not only the one space that the
  specification of Server-Sent Events removes: however many blanks follow the colon, the
  value read is the same.
\<close>

theorem sse_leading_blanks_lost:
  "field_value (str ''data'' @ 58 # replicate n 32 @ v) = field_value (str ''data'' @ 58 # v)"
proof -
  have "58 \<notin> set (str ''data'')" by (simp add: str_def)
  moreover have "trim_start (replicate n 32 @ v) = trim_start v"
    by (induction n) (simp_all add: trim_start_def is_whitespace_def)
  ultimately show ?thesis by (simp add: field_value_def splitn2_append)
qed

end
