(* ===== verification/SseStandard.thy ===== *)
theory SseStandard
  imports SseFormat
begin

text \<open>
  \<open>SseStream\<close> against the specification it names.

  \<open>sse.rs\<close> parses events \<open>according to the SSE specification\<close>, which is the section on
  event streams of the HTML standard.  \<open>standard_messages\<close> is that section's
  interpretation of a decoded stream: lines ended by LF, CR or CRLF, an optional byte
  order mark, comment lines, fields with one optional space after the colon, a data
  buffer, an event type buffer and a last event identifier that is kept between events.
  \<open>messages\<close> is what a caller sees who goes through the events of the code, skips those
  without data and keeps the last identifier.

  On \<open>conventional\<close> streams the two agree (\<open>sse_conforms\<close>); the last section has a
  stream for each condition of \<open>conventional\<close> on which they do not.
\<close>

section \<open>The standard\<close>

record message =
  msg_type :: "uchar list"
  msg_data :: "uchar list"
  msg_id :: "uchar list"

text \<open>The lines of a text; what follows the last line end is not a line yet.\<close>

fun skip_lf :: "uchar list \<Rightarrow> uchar list" where
  "skip_lf (c # cs) = (if c = 10 then cs else c # cs)"
| "skip_lf [] = []"

lemma skip_lf_length: "length (skip_lf cs) \<le> length cs"
  by (cases cs) auto

function standard_lines :: "uchar list \<Rightarrow> uchar list \<Rightarrow> uchar list list" where
  "standard_lines cur [] = []"
| "standard_lines cur (c # cs) =
     (if c = 10 then cur # standard_lines [] cs
      else if c = 13 then cur # standard_lines [] (skip_lf cs)
      else standard_lines (cur @ [c]) cs)"
  by pat_completeness auto
termination
  by (relation "measure (\<lambda>(cur, cs). length cs)") (auto simp: le_imp_less_Suc skip_lf_length)

fun strip_bom :: "uchar list \<Rightarrow> uchar list" where
  "strip_bom (c # cs) = (if c = 65279 then cs else c # cs)"
| "strip_bom [] = []"

fun strip_space :: "uchar list \<Rightarrow> uchar list" where
  "strip_space (c # cs) = (if c = 32 then cs else c # cs)"
| "strip_space [] = []"

definition standard_name :: "uchar list \<Rightarrow> uchar list" where
  "standard_name l = takeWhile (\<lambda>c. c \<noteq> 58) l"

definition standard_value :: "uchar list \<Rightarrow> uchar list" where
  "standard_value l = strip_space (tl (dropWhile (\<lambda>c. c \<noteq> 58) l))"

record buffers =
  data_buffer :: "uchar list"
  type_buffer :: "uchar list"
  id_buffer :: "uchar list"

definition standard_field :: "uchar list \<Rightarrow> uchar list \<Rightarrow> buffers \<Rightarrow> buffers" where
  "standard_field name value b =
     (if name = str ''event'' then b\<lparr>type_buffer := value\<rparr>
      else if name = str ''data'' then b\<lparr>data_buffer := data_buffer b @ value @ [10]\<rparr>
      else if name = str ''id'' then (if 0 \<in> set value then b else b\<lparr>id_buffer := value\<rparr>)
      else b)"

definition standard_line :: "uchar list \<Rightarrow> buffers \<Rightarrow> buffers" where
  "standard_line l b = (if hd l = 58 then b else standard_field (standard_name l) (standard_value l) b)"

definition standard_dispatch :: "buffers \<Rightarrow> message list" where
  "standard_dispatch b =
     (if data_buffer b = [] then []
      else [\<lparr>msg_type = (if type_buffer b = [] then str ''message'' else type_buffer b),
             msg_data = butlast (data_buffer b), msg_id = id_buffer b\<rparr>])"

fun standard_run :: "buffers \<Rightarrow> uchar list list \<Rightarrow> message list" where
  "standard_run b [] = []"
| "standard_run b (l # ls) =
     (if l = [] then standard_dispatch b @ standard_run (b\<lparr>data_buffer := [], type_buffer := []\<rparr>) ls
      else standard_run (standard_line l b) ls)"

definition standard_messages :: "uchar list \<Rightarrow> message list" where
  "standard_messages text =
     standard_run \<lparr>data_buffer = [], type_buffer = [], id_buffer = []\<rparr> (standard_lines [] (strip_bom text))"

section \<open>A reader of the code's events\<close>

definition event_message :: "uchar list \<Rightarrow> sse_event \<Rightarrow> message" where
  "event_message last_id ev =
     \<lparr>msg_type = (case event_event ev of None \<Rightarrow> str ''message'' | Some t \<Rightarrow> if t = [] then str ''message'' else t),
      msg_data = event_data ev, msg_id = last_id\<rparr>"

fun messages :: "uchar list \<Rightarrow> sse_event list \<Rightarrow> message list" where
  "messages last_id [] = []"
| "messages last_id (ev # evs) =
     (let last_id = (case event_id ev of Some i \<Rightarrow> i | None \<Rightarrow> last_id) in
      (if event_data ev = [] then [] else [event_message last_id ev]) @ messages last_id evs)"

section \<open>Conventional streams\<close>

definition strip_cr :: "uchar list \<Rightarrow> uchar list" where
  "strip_cr l = (if l \<noteq> [] \<and> last l = 13 then butlast l else l)"

text \<open>
  A line without a carriage return inside or white space at its end; the value of a field
  the parser reads does not start with white space once its single space is gone, and an
  identifier has no NUL.
\<close>

definition tidy_line :: "uchar list \<Rightarrow> bool" where
  "tidy_line l \<longleftrightarrow> 13 \<notin> set l \<and> trim_end l = l \<and>
     (standard_name l \<in> {str ''data'', str ''id'', str ''event''} \<longrightarrow>
        trim_start (standard_value l) = standard_value l) \<and>
     (standard_name l = str ''id'' \<longrightarrow> 0 \<notin> set (standard_value l))"

definition data_starts :: "uchar list list \<Rightarrow> bool" where
  "data_starts block \<longleftrightarrow> field_values ''data'' block = [] \<or> hd (field_values ''data'' block) \<noteq> []"

definition conventional :: "byte list \<Rightarrow> bool" where
  "conventional bs \<longleftrightarrow>
     strip_bom (from_utf8_lossy bs) = from_utf8_lossy bs \<and>
     list_all (\<lambda>l. tidy_line (strip_cr (from_utf8_lossy l))) (complete_lines bs) \<and>
     13 \<notin> set (from_utf8_lossy (unterminated bs)) \<and>
     list_all data_starts (fst (blocks [] (map line_text (complete_lines bs))))"

section \<open>Decoding line by line\<close>

lemma newline_no_cont [simp]:
  "\<not> is_cont newline" "\<not> second3 x newline" "\<not> second4 x newline"
  by (simp_all add: is_cont_def second3_def second4_def)

lemma decode_one_newline:
  assumes "newline \<notin> set l"
  shows "decode_one b (l @ newline # r) =
     (fst (decode_one b l), snd (decode_one b l) @ newline # r)"
proof -
  consider "l = []" | c where "l = [c]" | c d where "l = [c, d]" | c d e m where "l = c # d # e # m"
    by (metis list.exhaust)
  then show ?thesis
    by cases (simp_all add: decode_one.simps Let_def)
qed

lemma decode_one_keeps_no_newline: "newline \<notin> set l \<Longrightarrow> newline \<notin> set (snd (decode_one b l))"
proof -
  have "set (snd (decode_one b l)) \<subseteq> set l"
    by (simp add: decode_one.simps Let_def split: list.split) (auto split: list.splits)
  then show "newline \<notin> set l \<Longrightarrow> newline \<notin> set (snd (decode_one b l))" by blast
qed

lemma lossy_newline:
  "newline \<notin> set l \<Longrightarrow> from_utf8_lossy (l @ newline # r) = from_utf8_lossy l @ 10 # from_utf8_lossy r"
proof (induction l rule: from_utf8_lossy.induct)
  case 1
  have "decode_one newline r = (Some 10, r)" using decode_one_1 [of 10 r] by (simp add: byte_of_def)
  then show ?case by simp
next
  case (2 b bs)
  obtain c s where d: "decode_one b bs = (c, s)" by fastforce
  have n: "newline \<notin> set bs" "newline \<notin> set s"
    using 2(3) decode_one_keeps_no_newline [of bs b] by (simp_all add: d)
  have d': "decode_one b (bs @ newline # r) = (c, s @ newline # r)"
    using decode_one_newline [OF n(1), of b r] d by simp
  show ?case
    using 2(1) [OF d [symmetric]] 2(2) [OF d [symmetric]] n(2) d d'
    by (cases c) simp_all
qed

lemma decode_one_10:
  assumes "decode_one b bs = (Some 10, r)"
  shows "b = newline"
proof -
  have "encode_char 10 = [newline]" by (simp add: encode_char_def byte_of_def)
  with encode_decode_one [OF assms] show ?thesis by simp
qed

lemma lossy_no_newline: "newline \<notin> set l \<Longrightarrow> 10 \<notin> set (from_utf8_lossy l)"
proof (induction l rule: from_utf8_lossy.induct)
  case (2 b bs)
  obtain c s where d: "decode_one b bs = (c, s)" by fastforce
  have n: "newline \<notin> set s"
    using 2(3) decode_one_keeps_no_newline [of bs b] by (simp add: d)
  show ?case
    using 2(1) [OF d [symmetric]] 2(2) [OF d [symmetric]] n d 2(3) decode_one_10 [of b bs s]
    by (cases c) (auto simp: replacement_char_def)
qed simp

lemma lossy_lines:
  assumes "\<forall>l \<in> set ls. newline \<notin> set l"
  shows "from_utf8_lossy (concat (map (\<lambda>l. l @ [newline]) ls) @ r) =
     concat (map (\<lambda>l. from_utf8_lossy l @ [10]) ls) @ from_utf8_lossy r"
  using assms by (induction ls) (simp_all add: lossy_newline)

lemma lossy_split:
  "from_utf8_lossy bs =
     concat (map (\<lambda>l. from_utf8_lossy l @ [10]) (complete_lines bs)) @ from_utf8_lossy (unterminated bs)"
proof -
  have "\<forall>l \<in> set (complete_lines bs). newline \<notin> set l"
    using lines_rest_lines [of "[]"] by (auto simp: complete_lines_def)
  from lossy_lines [OF this, of "unterminated bs"] show ?thesis
    using lines_rest_concat [of "[]" bs] by (simp add: complete_lines_def unterminated_def)
qed

section \<open>Lines, names and values agree\<close>

lemma standard_lines_plain:
  "10 \<notin> set m \<Longrightarrow> 13 \<notin> set m \<Longrightarrow> standard_lines cur (m @ r) = standard_lines (cur @ m) r"
  by (induction m arbitrary: cur) auto

lemma standard_lines_line:
  assumes "10 \<notin> set t" and "13 \<notin> set (strip_cr t)"
  shows "standard_lines [] (t @ 10 # r) = strip_cr t # standard_lines [] r"
proof (cases "t \<noteq> [] \<and> last t = 13")
  case True
  then obtain m where t: "t = m @ [13]" by (metis append_butlast_last_id)
  with assms show ?thesis by (simp add: strip_cr_def standard_lines_plain)
next
  case False
  then have "strip_cr t = t" by (auto simp: strip_cr_def)
  with assms show ?thesis by (simp add: standard_lines_plain)
qed

lemma standard_lines_texts:
  assumes "list_all (\<lambda>t. 10 \<notin> set t \<and> 13 \<notin> set (strip_cr t)) ts" and "10 \<notin> set r" and "13 \<notin> set r"
  shows "standard_lines [] (concat (map (\<lambda>t. t @ [10]) ts) @ r) = map strip_cr ts"
  using assms
proof (induction ts)
  case Nil
  then show ?case using standard_lines_plain [of r "[]" "[]"] by simp
qed (simp add: standard_lines_line)

lemma trim_end_strip_cr: "trim_end t = trim_end (strip_cr t)"
  by (cases t rule: rev_cases) (simp_all add: strip_cr_def trim_end_def is_whitespace_def)

lemma field_name_standard: "field_name l = standard_name l"
  unfolding field_name_def standard_name_def
  by (induction l) (auto split: prod.splits)

lemma splitn2_rest:
  "snd (splitn2 sep l) = (case dropWhile (\<lambda>c. c \<noteq> sep) l of [] \<Rightarrow> None | c # v \<Rightarrow> Some v)"
  by (induction l) (auto split: prod.splits)

lemma trim_start_strip_space: "trim_start (strip_space v) = trim_start v"
  by (cases v) (simp_all add: trim_start_def is_whitespace_def)

lemma trim_start_Nil [simp]: "trim_start [] = []"
  by (simp add: trim_start_def)

lemma of_char_eq_58: "of_char CHR '':'' = (58::nat)"
  by simp

text \<open>The parser removes what the standard removes, and then all white space that is left.\<close>

lemma field_value_standard: "field_value l = trim_start (standard_value l)"
proof -
  have "(case (case d of [] \<Rightarrow> None | c # v \<Rightarrow> Some v) of Some v \<Rightarrow> trim_start v | None \<Rightarrow> []) =
      trim_start (strip_space (tl d))" for d :: "uchar list"
    by (cases d) (simp_all add: trim_start_strip_space)
  then show ?thesis by (simp only: field_value_def standard_value_def splitn2_rest of_char_eq_58)
qed

section \<open>Blocks agree\<close>

definition standard_at :: "uchar list \<Rightarrow> uchar list list \<Rightarrow> buffers" where
  "standard_at last_id cur =
     \<lparr>data_buffer = concat (map (\<lambda>v. v @ [10]) (field_values ''data'' cur)),
      type_buffer = (case last_value (field_values ''event'' cur) of Some t \<Rightarrow> t | None \<Rightarrow> []),
      id_buffer = (case last_value (field_values ''id'' cur) of Some i \<Rightarrow> i | None \<Rightarrow> last_id)\<rparr>"

lemma standard_at_Nil [simp]:
  "standard_at last_id [] = \<lparr>data_buffer = [], type_buffer = [], id_buffer = last_id\<rparr>"
  by (simp add: standard_at_def)

lemma standard_line_at:
  assumes "l \<noteq> []" and "tidy_line l"
  shows "standard_line l (standard_at last_id cur) = standard_at last_id (cur @ [l])"
proof (cases "hd l = 58")
  case True
  with assms(1) have "standard_name l = []" by (cases l) (auto simp: standard_name_def)
  with True show ?thesis
    by (simp add: standard_line_def standard_at_def field_name_standard str_def del: field_values_append)
next
  case False
  note names = field_names_distinct field_names_distinct [symmetric]
  consider "standard_name l = str ''data''" | "standard_name l = str ''id''" | "standard_name l = str ''event''"
    | "standard_name l \<notin> {str ''data'', str ''id'', str ''event''}" by blast
  then show ?thesis
    using assms(2) names False
    by cases (simp_all add: standard_line_def standard_field_def standard_at_def field_name_standard
        field_value_standard tidy_line_def del: field_values_append)
qed

lemma butlast_lines: "vs \<noteq> [] \<Longrightarrow> butlast (concat (map (\<lambda>v. v @ [10]) vs)) = join_lines vs"
  by (induction vs rule: join_lines.induct) (simp_all add: butlast_append)

lemma standard_dispatch_at:
  assumes "data_starts cur"
  shows "standard_dispatch (standard_at last_id cur) =
     (if event_data (event_of_block cur) = [] then []
      else [event_message (id_buffer (standard_at last_id cur)) (event_of_block cur)])"
proof -
  let ?vs = "field_values ''data'' cur"
  have kept: "dropWhile (\<lambda>v. v = []) ?vs = ?vs"
    using assms by (cases ?vs) (auto simp: data_starts_def)
  have "event_data (event_of_block cur) = join_lines ?vs"
    by (simp add: event_data_def event_of_block_def kept)
  moreover have "join_lines ?vs = [] \<longleftrightarrow> ?vs = []"
    using assms by (simp add: data_starts_def join_lines_Nil_iff)
  ultimately show ?thesis
    by (auto simp: standard_dispatch_def event_message_def standard_at_def butlast_lines event_event_def
        event_of_block_def split: option.split)
qed

lemma standard_run_blocks:
  assumes "list_all tidy_line ls" and "list_all data_starts (fst (blocks cur ls))"
  shows "standard_run (standard_at last_id cur) ls =
     messages last_id (map event_of_block (fst (blocks cur ls)))"
  using assms
proof (induction ls arbitrary: cur last_id)
  case (Cons l ls)
  show ?case
  proof (cases "l = []")
    case True
    let ?id = "id_buffer (standard_at last_id cur)"
    have next_id: "(case event_id (event_of_block cur) of Some i \<Rightarrow> i | None \<Rightarrow> last_id) = ?id"
      by (simp add: event_id_def event_of_block_def standard_at_def)
    have reset: "standard_at last_id cur\<lparr>data_buffer := [], type_buffer := []\<rparr> = standard_at ?id []"
      by (simp add: standard_at_def)
    from Cons.prems True have prems: "list_all tidy_line ls" "list_all data_starts (fst (blocks [] ls))"
        "data_starts cur"
      by (simp_all split: prod.splits)
    show ?thesis
      using Cons.IH [OF prems(1,2), of ?id] True standard_dispatch_at [OF prems(3), of last_id]
      by (simp add: reset next_id Let_def split: prod.split)
  next
    case False
    with Cons show ?thesis by (simp add: standard_line_at)
  qed
qed simp

theorem conventional_conforms:
  assumes "conventional bs"
  shows "messages [] (sse_reference bs) = standard_messages (from_utf8_lossy bs)"
proof -
  let ?ts = "map from_utf8_lossy (complete_lines bs)"
  have tidy: "list_all (\<lambda>t. tidy_line (strip_cr t)) ?ts"
    using assms by (simp add: conventional_def list.pred_map comp_def)
  have "\<forall>l \<in> set (complete_lines bs). newline \<notin> set l"
    using lines_rest_lines [of "[]"] by (auto simp: complete_lines_def)
  then have lf: "list_all (\<lambda>t. 10 \<notin> set t) ?ts"
    by (simp add: list_all_iff lossy_no_newline)
  have "standard_lines [] (from_utf8_lossy bs) = map strip_cr ?ts"
    using standard_lines_texts [of ?ts "from_utf8_lossy (unterminated bs)"] tidy lf assms
      lossy_no_newline [OF unterminated_no_newline, of bs] lossy_split [of bs]
    by (auto simp: list_all_iff tidy_line_def conventional_def comp_def)
  moreover have "map line_text (complete_lines bs) = map strip_cr ?ts"
    using tidy by (simp add: list_all_iff line_text_def trim_end_strip_cr [of "from_utf8_lossy _"] tidy_line_def)
  moreover have "list_all tidy_line (map strip_cr ?ts)"
    using tidy by (simp add: list.pred_map comp_def)
  moreover have "list_all data_starts (fst (blocks [] (map line_text (complete_lines bs))))"
      "strip_bom (from_utf8_lossy bs) = from_utf8_lossy bs"
    using assms by (simp_all add: conventional_def)
  ultimately show ?thesis
    using standard_run_blocks [of "map strip_cr ?ts" "[]" "[]"]
    by (simp only: standard_messages_def sse_reference_def standard_at_Nil)
qed

section \<open>What the caller sees\<close>

text \<open>Lines of ASCII text, each with its line feed.\<close>

definition text_of :: "string list \<Rightarrow> byte list" where
  "text_of ls = concat (map (\<lambda>l. map of_char l @ [newline]) ls)"

lemmas decode_compute = decode_one.simps is_cont_def low6_def second3_def Let_def replacement_char_def
lemmas line_compute = complete_lines_def unterminated_def line_text_def trim_end_def trim_start_def
  is_whitespace_def str_def text_of_def
lemmas event_compute = sse_reference_def event_of_block_def field_values_def field_name_def field_value_def
  event_message_def event_id_def event_event_def event_data_def
lemmas standard_compute = standard_messages_def standard_line_def standard_field_def standard_dispatch_def
  standard_name_def standard_value_def

text \<open>
  C5: \<open>SseStream\<close> implements the specification of Server-Sent Events on conventional streams:
  however the body is cut into frames and whatever pending polls and errors it answers in
  between, a caller who polls the stream until it ends, skips the events without data and keeps
  the last identifier sees exactly the messages that the specification gives to the decoded body,
  with their types, their data and their last event identifiers.
\<close>

theorem sse_conforms:
  assumes "poll_n poll_frame (Suc (length os)) (box_new (map_frame (map_data (to_bytes B)) body)) = os @ [Ready None]"
    and "Ready None \<notin> set os" and "conventional (data_bytes os)"
  shows "\<exists>n log l s' evs. sse_polls poll_frame lay n (sse_new B map_frame box_new body) = Some (log @ [l], s') \<and>
           log_result l = Ready None \<and> outcomes (log @ [l]) = os @ [Ready None] \<and>
           items log = map Inr evs \<and>
           messages [] evs = standard_messages (from_utf8_lossy (data_bytes os))"
  using sse_to_end [where map_frame = map_frame and box_new = box_new and lay = lay, OF assms(1,2)]
    conventional_conforms [OF assms(3)] by blast

definition sample_events :: "byte list" where
  "sample_events = text_of [[CHR '':'', CHR 0x0D], ''id: 7'' @ [CHR 0x0D], [CHR 0x0D], ''data:x'', ''data'', '''']"

theorem sse_conforms_witness:
  "\<exists>n log l s' evs. sse_polls poll_script (\<lambda>_. 2) n (sse_new bytes_buf (\<lambda>_ b. b) (\<lambda>b. b)
        [Ready (Some (Inr (DataFrame (take 9 sample_events)))), Pending, Ready (Some (Inl (7::nat))),
         Ready (Some (Inr (DataFrame (drop 9 sample_events))))]) = Some (log @ [l], s') \<and>
     log_result l = Ready None \<and>
     outcomes (log @ [l]) = [Ready (Some (Inr (DataFrame (take 9 sample_events)))), Pending, Ready (Some (Inl 7)),
       Ready (Some (Inr (DataFrame (drop 9 sample_events))))] @ [Ready None] \<and>
     items log = map Inr evs \<and>
     messages [] evs = standard_messages (from_utf8_lossy (data_bytes
       [Ready (Some (Inr (DataFrame (take 9 sample_events)))), Pending, Ready (Some (Inl (7::nat))),
        Ready (Some (Inr (DataFrame (drop 9 sample_events))))]))"
proof (rule sse_conforms)
  have "conventional sample_events"
    by (simp add: conventional_def sample_events_def tidy_line_def strip_cr_def data_starts_def
        decode_compute line_compute event_compute standard_compute)
  then show "conventional (data_bytes [Ready (Some (Inr (DataFrame (take 9 sample_events)))), Pending,
      Ready (Some (Inl (7::nat))), Ready (Some (Inr (DataFrame (drop 9 sample_events))))])"
    by simp
qed simp_all

lemma sample_events_messages:
  "standard_messages (from_utf8_lossy sample_events) =
     [\<lparr>msg_type = str ''message'', msg_data = str ''x'' @ [10], msg_id = str ''7''\<rparr>]"
  by (simp add: sample_events_def decode_compute line_compute standard_compute)

section \<open>Streams on which they differ\<close>

definition says :: "string \<Rightarrow> message" where
  "says d = \<lparr>msg_type = str ''message'', msg_data = str d, msg_id = []\<rparr>"

lemmas differ = says_def decode_compute line_compute event_compute standard_compute

text \<open>A byte order mark hides the name of the first field.\<close>

lemma sse_keeps_bom:
  "messages [] (sse_reference ([239, 187, 191] @ text_of [''data: x'', ''''])) = []"
  "standard_messages (from_utf8_lossy ([239, 187, 191] @ text_of [''data: x'', ''''])) = [says ''x'']"
  by (simp_all add: differ)

text \<open>A carriage return alone does not end a line, neither inside the stream nor at its end.\<close>

lemma sse_ignores_lone_cr:
  "messages [] (sse_reference (text_of [''data: x'' @ [CHR 0x0D, CHR 0x0D]])) = []"
  "standard_messages (from_utf8_lossy (text_of [''data: x'' @ [CHR 0x0D, CHR 0x0D]])) = [says ''x'']"
  "messages [] (sse_reference (text_of [''data: x''] @ [13])) = []"
  "standard_messages (from_utf8_lossy (text_of [''data: x''] @ [13])) = [says ''x'']"
  by (simp_all add: differ)

text \<open>White space that belongs to the value is removed from both of its ends.\<close>

lemma sse_trims_values:
  "messages [] (sse_reference (text_of [''data:  x '', ''''])) = [says ''x'']"
  "standard_messages (from_utf8_lossy (text_of [''data:  x '', ''''])) = [says '' x '']"
  by (simp_all add: differ)

text \<open>Empty lines at the start of the data are lost, and data that is one empty line altogether.\<close>

lemma sse_loses_empty_data:
  "messages [] (sse_reference (text_of [''data'', ''data: x'', '''', ''data'', ''''])) = [says ''x'']"
  "standard_messages (from_utf8_lossy (text_of [''data'', ''data: x'', '''', ''data'', ''''])) =
     [says (CHR 0x0A # ''x''), says '''']"
  by (simp_all add: differ)

text \<open>An identifier with a NUL is taken, where the specification ignores it.\<close>

lemma sse_takes_nul_id:
  "messages [] (sse_reference (text_of [''id: '' @ [CHR 0x00], ''data: x'', ''''])) = [says ''x''\<lparr>msg_id := [0]\<rparr>]"
  "standard_messages (from_utf8_lossy (text_of [''id: '' @ [CHR 0x00], ''data: x'', ''''])) = [says ''x'']"
  by (simp_all add: differ)

end
