(* ===== verification/SseTypes.thy ===== *)
theory SseTypes
  imports Sse
begin

text \<open>
  What the events of \<open>SseStream\<close> are made of: every string is a sequence of Unicode scalar values,
  as Rust's \<open>String\<close> demands, and the single-line fields \<open>id\<close> and \<open>event\<close> hold no line feed.
\<close>

definition inline_char :: "uchar \<Rightarrow> bool" where
  "inline_char c \<longleftrightarrow> scalar c \<and> c \<noteq> 10"

definition event_ok :: "sse_event \<Rightarrow> bool" where
  "event_ok ev \<longleftrightarrow> pred_option (list_all inline_char) (ev_id ev) \<and>
     pred_option (list_all inline_char) (ev_event ev) \<and> list_all scalar (ev_data ev)"

section \<open>Decoded lines\<close>

lemma newline_from_utf8_lossy: "10 \<in> set (from_utf8_lossy bs) \<Longrightarrow> newline \<in> set bs"
proof (induction bs rule: from_utf8_lossy.induct)
  case (2 b bs)
  obtain c r where d: "decode_one b bs = (c, r)" by fastforce
  show ?case
  proof (cases c)
    case None
    have "set r \<subseteq> set bs"
      using d None by (auto simp: decode_one.simps Let_def split: if_splits list.splits)
    with 2 d None show ?thesis by (auto simp: replacement_char_def)
  next
    case (Some c')
    have enc: "encode_char c' @ r = b # bs" using encode_decode_one d Some by blast
    then have "set r \<subseteq> set (b # bs)" by (metis set_append Un_upper2)
    moreover have "newline \<in> set (b # bs)" if "c' = 10"
    proof -
      have "encode_char 10 = [newline]" by (simp add: encode_char_def byte_of_def)
      then show ?thesis using enc that by (metis append_Cons list.inject list.set_intros(1))
    qed
    ultimately show ?thesis using 2 d Some by auto
  qed
qed simp

lemma scalar_from_utf8_lossy: "list_all scalar (from_utf8_lossy bs)"
proof (induction bs rule: from_utf8_lossy.induct)
  case (2 b bs)
  obtain c r where d: "decode_one b bs = (c, r)" by fastforce
  have "scalar replacement_char" by (simp add: scalar_def replacement_char_def)
  moreover have "c = Some c' \<Longrightarrow> scalar c'" for c' using encode_decode_one d by blast
  ultimately show ?case using 2 d by (auto split: option.split)
qed simp

lemma line_text_inline:
  assumes "newline \<notin> set l"
  shows "list_all inline_char (line_text l)"
proof -
  have "list_all inline_char (from_utf8_lossy l)"
    using scalar_from_utf8_lossy [of l] newline_from_utf8_lossy [of l] assms
    by (auto simp: list_all_iff inline_char_def)
  then show ?thesis
    by (auto simp: line_text_def trim_end_def list_all_iff dest: set_dropWhileD)
qed

lemma splitn2_set: "splitn2 sep s = (h, Some t) \<Longrightarrow> set t \<subseteq> set s"
  by (induction sep s arbitrary: h rule: splitn2.induct) (auto split: if_splits prod.splits)

lemma field_value_inline: "list_all inline_char l \<Longrightarrow> list_all inline_char (field_value l)"
  by (cases "splitn2 (of_char CHR '':'') l")
    (auto simp: field_value_def trim_start_def list_all_iff split: option.split
      dest!: set_dropWhileD splitn2_set)

section \<open>Events\<close>

lemma last_value_ok: "list_all P vs \<Longrightarrow> pred_option P (last_value vs)"
  by (cases vs) (auto simp: list_all_iff)

lemma join_lines_ok: "list_all (list_all scalar) vs \<Longrightarrow> list_all scalar (join_lines vs)"
  by (induction vs rule: join_lines.induct) (auto simp: scalar_def)

lemma event_of_block_ok:
  assumes "list_all (list_all inline_char) block"
  shows "event_ok (event_of_block block)"
proof -
  have vals: "list_all (list_all inline_char) (field_values name block)" for name
    using assms field_value_inline by (auto simp: field_values_def list_all_iff)
  then have "list_all (list_all scalar) (dropWhile (\<lambda>v. v = []) (field_values ''data'' block))"
    by (auto simp: list_all_iff inline_char_def dest!: set_dropWhileD)
  then show ?thesis
    by (simp add: event_ok_def event_of_block_def last_value_ok [OF vals] join_lines_ok)
qed

lemma blocks_ok:
  "list_all P cur \<Longrightarrow> list_all P ls \<Longrightarrow> list_all (list_all P) (fst (blocks cur ls))"
  by (induction cur ls rule: blocks.induct) (auto split: prod.splits)

lemma sse_reference_ok: "list_all event_ok (sse_reference bs)"
proof -
  have "list_all (list_all inline_char) (map line_text (complete_lines bs))"
    using lines_rest_lines [of "[]" _ bs] line_text_inline by (auto simp: list_all_iff complete_lines_def)
  from blocks_ok [OF _ this, of "[]"] show ?thesis
    using event_of_block_ok by (auto simp: sse_reference_def list_all_iff)
qed

lemma items_oks: "items log @ map Inr q = map Inr evs \<Longrightarrow> oks (items log) @ q = evs"
  by (metis oks_append oks_map_Inr)

text \<open>
  C20: Whatever bytes a body delivers, valid UTF-8 or not, every event that any number of polls of an
  \<open>SseStream\<close> hands out, and every event it still holds, is made of proper strings: only Unicode
  scalar values, with no line feed inside an id or an event name.
\<close>

theorem sse_events_are_strings:
  "\<exists>log s'. sse_polls poll_frame lay n (sse_new B map_frame box_new body) = Some (log, s') \<and>
     list_all event_ok (oks (items log)) \<and> list_all event_ok (sse_ready s')"
proof -
  obtain log s' where run: "sse_polls poll_frame lay n (sse_new B map_frame box_new body) = Some (log, s')"
      "items log @ map Inr (sse_ready s') = map Inr (sse_reference (delivered log))"
    using sse_polls_correct [of poll_frame lay n B map_frame box_new body] by (auto simp: sse_queue_def)
  from items_oks [OF run(2)] sse_reference_ok [of "delivered log"]
  have "list_all event_ok (oks (items log) @ sse_ready s')" by simp
  with run(1) show ?thesis by auto
qed

end
