(* ===== verification/Http.thy ===== *)
theory Http
  imports HttpBody
begin

text \<open>
  Requests, responses and the normalization of bodies.

  A URI of the \<open>http\<close> crate is known by what its accessors return.  A request and a
  response are their parts and a body, as \<open>into_parts\<close> and \<open>from_parts\<close> see them.
  \<open>normalize_body\<close> is the adapter chain that \<open>Client::send\<close>, \<open>BaseService::handle\<close> and
  \<open>convert_body\<close> of the Hyper plugin apply to a body; the three adapters of
  \<open>http_body_util\<close> are parameters (\<open>body_kit\<close>) whose documented behaviour is the
  locale \<open>body_kit_laws\<close>.
\<close>

record uri =
  uri_scheme_str :: "string option"
  uri_authority :: "string option"
  uri_host :: "string option"
  uri_port_u16 :: "16 word option"

text \<open>A URI for the examples.\<close>

definition sample_uri :: "string option \<Rightarrow> uri" where
  "sample_uri sch = \<lparr>uri_scheme_str = sch, uri_authority = Some ''h'', uri_host = Some ''h'', uri_port_u16 = None\<rparr>"

record 'ext req_parts =
  rp_method :: string
  rp_uri :: uri
  rp_version :: nat
  rp_headers :: headers
  rp_extensions :: 'ext

record ('ext, 'body) request =
  rq_parts :: "'ext req_parts"
  rq_body :: 'body

record 'ext res_parts =
  sp_status :: nat
  sp_headers :: headers
  sp_extensions :: 'ext

record ('ext, 'body) response =
  rs_parts :: "'ext res_parts"
  rs_body :: 'body

abbreviation request_uri :: "('ext, 'body) request \<Rightarrow> uri" where
  "request_uri req \<equiv> rp_uri (rq_parts req)"

section \<open>Normalized bodies\<close>

record ('b, 'b1, 'b2, 'nb, 'd, 'nd, 'e, 'x) body_kit =
  kit_map_frame :: "('d frame \<Rightarrow> 'nd frame) \<Rightarrow> 'b \<Rightarrow> 'b1"
  kit_map_err :: "('e \<Rightarrow> 'x error) \<Rightarrow> 'b1 \<Rightarrow> 'b2"
  kit_boxed :: "'b2 \<Rightarrow> 'nb"
  kit_box_data :: "'d \<Rightarrow> 'nd"
  kit_into :: "'e \<Rightarrow> 'x error"

definition normalize_body :: "('b, 'b1, 'b2, 'nb, 'd, 'nd, 'e, 'x) body_kit \<Rightarrow> 'b \<Rightarrow> 'nb" where
  "normalize_body kit body =
     kit_boxed kit (kit_map_err kit (kit_into kit) (kit_map_frame kit (map_data (kit_box_data kit)) body))"

fun map_outcome :: "('d frame \<Rightarrow> 'c frame) \<Rightarrow> ('e \<Rightarrow> 'f) \<Rightarrow> ('d, 'e) outcome \<Rightarrow> ('c, 'f) outcome" where
  "map_outcome f g Pending = Pending"
| "map_outcome f g (Ready None) = Ready None"
| "map_outcome f g (Ready (Some (Inl e))) = Ready (Some (Inl (g e)))"
| "map_outcome f g (Ready (Some (Inr fr))) = Ready (Some (Inr (f fr)))"

lemma map_outcome_comp [simp]:
  "map_outcome f g (map_outcome f' g' out) = map_outcome (f \<circ> f') (g \<circ> g') out"
  by (induction f' g' out rule: map_outcome.induct) auto

lemma map_outcome_id [simp]: "map_outcome (\<lambda>x. x) (\<lambda>x. x) out = out"
  by (rule map_outcome.cases [of "(\<lambda>x. x, \<lambda>x. x, out)"]) auto

locale body_kit_laws =
  fixes kit :: "('b, 'b1, 'b2, 'nb, 'd, 'nd, 'e, 'x) body_kit"
    and poll :: "'b \<Rightarrow> ('d, 'e) outcome \<times> 'b"
    and poll1 :: "'b1 \<Rightarrow> ('nd, 'e) outcome \<times> 'b1"
    and poll2 :: "'b2 \<Rightarrow> ('nd, 'x error) outcome \<times> 'b2"
    and poll_boxed :: "'nb \<Rightarrow> ('nd, 'x error) outcome \<times> 'nb"
  assumes poll_map_frame: "poll1 (kit_map_frame kit f b) =
        map_prod (map_outcome f (\<lambda>e. e)) (kit_map_frame kit f) (poll b)"
    and poll_map_err: "poll2 (kit_map_err kit g b1) =
        map_prod (map_outcome (\<lambda>fr. fr) g) (kit_map_err kit g) (poll1 b1)"
    and poll_box: "poll_boxed (kit_boxed kit b2) = map_prod (\<lambda>out. out) (kit_boxed kit) (poll2 b2)"
begin

lemma poll_normalize_body:
  "poll_boxed (normalize_body kit b) =
     map_prod (map_outcome (map_data (kit_box_data kit)) (kit_into kit)) (normalize_body kit) (poll b)"
  by (cases "poll b")
    (simp add: normalize_body_def poll_box poll_map_err poll_map_frame comp_def)

lemma poll_n_normalize:
  "poll_n poll_boxed n (normalize_body kit b) =
     map (map_outcome (map_data (kit_box_data kit)) (kit_into kit)) (poll_n poll n b)"
  by (induction n arbitrary: b) (simp_all add: poll_normalize_body)

end

text \<open>Bodies that play back a script satisfy the laws.\<close>

type_synonym ('d, 'nd, 'e, 'x) script_body_kit =
  "(('d, 'e) outcome list, ('nd, 'e) outcome list, ('nd, 'x error) outcome list,
    ('nd, 'x error) outcome list, 'd, 'nd, 'e, 'x) body_kit"

definition script_kit ::
  "('d \<Rightarrow> 'nd) \<Rightarrow> ('e \<Rightarrow> 'x error) \<Rightarrow> ('d, 'nd, 'e, 'x) script_body_kit" where
  "script_kit box into = \<lparr>kit_map_frame = (\<lambda>f. map (map_outcome f (\<lambda>e. e))),
     kit_map_err = (\<lambda>g. map (map_outcome (\<lambda>fr. fr) g)), kit_boxed = (\<lambda>b. b),
     kit_box_data = box, kit_into = into\<rparr>"

lemma poll_script_map: "poll_script (map (map_outcome f g) os) =
    map_prod (map_outcome f g) (map (map_outcome f g)) (poll_script os)"
  by (cases os) auto

interpretation script: body_kit_laws "script_kit box into" poll_script poll_script poll_script poll_script
  for box into
  by unfold_locales (simp_all add: script_kit_def poll_script_map map_prod.id [unfolded id_def])

text \<open>Adapters that keep their closure beside the body they wrap satisfy them over any body.\<close>

type_synonym ('b, 'd, 'nd, 'e, 'x) closure_body_kit =
  "('b, ('d frame \<Rightarrow> 'nd frame) \<times> 'b, ('e \<Rightarrow> 'x error) \<times> ('d frame \<Rightarrow> 'nd frame) \<times> 'b,
    ('e \<Rightarrow> 'x error) \<times> ('d frame \<Rightarrow> 'nd frame) \<times> 'b, 'd, 'nd, 'e, 'x) body_kit"

definition closure_kit :: "('d \<Rightarrow> 'nd) \<Rightarrow> ('e \<Rightarrow> 'x error) \<Rightarrow> ('b, 'd, 'nd, 'e, 'x) closure_body_kit" where
  "closure_kit box into = \<lparr>kit_map_frame = Pair, kit_map_err = Pair, kit_boxed = (\<lambda>b. b),
     kit_box_data = box, kit_into = into\<rparr>"

definition poll_mapped :: "('b \<Rightarrow> ('d, 'e) outcome \<times> 'b) \<Rightarrow> ('d frame \<Rightarrow> 'c frame) \<times> 'b \<Rightarrow>
    ('c, 'e) outcome \<times> ('d frame \<Rightarrow> 'c frame) \<times> 'b" where
  "poll_mapped poll = (\<lambda>(f, b). map_prod (map_outcome f (\<lambda>e. e)) (Pair f) (poll b))"

definition poll_mapped_err :: "('b \<Rightarrow> ('d, 'e) outcome \<times> 'b) \<Rightarrow> ('e \<Rightarrow> 'f) \<times> 'b \<Rightarrow>
    ('d, 'f) outcome \<times> ('e \<Rightarrow> 'f) \<times> 'b" where
  "poll_mapped_err poll = (\<lambda>(g, b). map_prod (map_outcome (\<lambda>fr. fr) g) (Pair g) (poll b))"

interpretation closure: body_kit_laws "closure_kit box into" poll "poll_mapped poll"
    "poll_mapped_err (poll_mapped poll)" "poll_mapped_err (poll_mapped poll)"
  for box into poll
  by unfold_locales
    (simp_all add: closure_kit_def poll_mapped_def poll_mapped_err_def map_prod.id [unfolded id_def])

text \<open>
  Normalizing a body changes nothing but the representation of its data and errors: poll by
  poll, pending answers, the end of the body and trailers come through as they are, a data
  frame carries the boxed data, an error is the converted error.
\<close>

theorem normalize_preserves_frames:
  assumes "body_kit_laws kit poll poll1 poll2 poll_boxed"
  shows "poll_n poll_boxed n (normalize_body kit body) =
     map (map_outcome (map_data (kit_box_data kit)) (kit_into kit)) (poll_n poll n body)"
  using assms by (rule body_kit_laws.poll_n_normalize)

definition sample_kit :: "(byte list, byte list list, nat, nat) script_body_kit" where
  "sample_kit = script_kit (\<lambda>d. [d]) Foreign"

definition sample_body :: "(byte list, nat) outcome list" where
  "sample_body = [Ready (Some (Inr (DataFrame [1]))), Pending, Ready (Some (Inl 7))]"

theorem normalize_preserves_frames_witness:
  "poll_n poll_script 4 (normalize_body sample_kit sample_body) =
   map (map_outcome (map_data (kit_box_data sample_kit)) (kit_into sample_kit))
     (poll_n poll_script 4 sample_body)"
  unfolding sample_kit_def
  by (rule normalize_preserves_frames [OF script.body_kit_laws_axioms])

end
