(* ===== verification/Transport.thy ===== *)
theory Transport
  imports Http
begin

text \<open>
  The traits that transports, protocols and runtimes implement
  (\<open>src/transport.rs\<close>, \<open>src/application.rs\<close>, \<open>AsyncRuntime\<close> of \<open>src/lib.rs\<close>), as
  records of their methods.  A method that is awaited acts on a world \<open>'w\<close> and may
  fail; a type parameter of the record stands for each associated type.
\<close>

section \<open>Streams and connections\<close>

record ('s, 'send, 'recv) bidi_stream =
  stream_id :: "'s \<Rightarrow> 64 word"
  bidi_split :: "'s \<Rightarrow> 'send \<times> 'recv"
  bidi_alpn_protocol :: "'s \<Rightarrow> byte list option"

text \<open>The default implementation of \<open>alpn_protocol\<close> in \<open>BidiStream\<close> and \<open>Connection\<close>.\<close>

definition default_alpn_protocol :: "'s \<Rightarrow> byte list option" where
  "default_alpn_protocol s = None"

record ('conn, 'bidi, 'send, 'recv, 'w, 'x) connection =
  open_bidirectional :: "'conn \<Rightarrow> ('w, 'x, 'bidi) io"
  open_unidirectional :: "'conn \<Rightarrow> ('w, 'x, 'send) io"
  accept_bidirectional :: "'conn \<Rightarrow> ('w, 'x, 'bidi) io"
  accept_unidirectional :: "'conn \<Rightarrow> ('w, 'x, 'recv) io"
  conn_alpn_protocol :: "'conn \<Rightarrow> byte list option"

record ('conn, 'w, 'x) transport_plugin =
  connect :: "uri \<Rightarrow> ('w, 'x, 'conn) io"

section \<open>Sessions, applications and runtimes\<close>

text \<open>
  \<open>send_request\<close> takes the session by \<open>&mut\<close>: the session it leaves is returned with
  the response.  \<open>handshake\<close> returns the session and the driver to be spawned.
\<close>

record ('sess, 'req, 'resp, 'w, 'x) session =
  send_request :: "'req \<Rightarrow> 'sess \<Rightarrow> ('w, 'x, 'resp \<times> 'sess) io"

record ('conn, 'sess, 'driver, 'w, 'x) application_plugin =
  handshake :: "'conn \<Rightarrow> ('w, 'x, 'sess \<times> 'driver) io"

record ('driver, 'w) async_runtime =
  spawn :: "'driver \<Rightarrow> 'w \<Rightarrow> 'w"

end
