(* ===== verification/Service.thy ===== *)
theory Service
  imports Http
begin

text \<open>
  Services, middleware and the pipeline (\<open>src/service.rs\<close>).

  A service is its \<open>handle\<close> function.  A middleware value is either a single one,
  given by its \<open>wrap\<close>, or a pair of two; what \<open>IntoService\<close> accepts is a service or a
  middleware with a service.
\<close>

type_synonym ('req, 'resp, 'w, 'x) service = "'req \<Rightarrow> ('w, 'x, 'resp) io"

datatype 'svc middleware = Middleware "'svc \<Rightarrow> 'svc" | MiddlewarePair "'svc middleware" "'svc middleware"

fun wrap :: "'svc middleware \<Rightarrow> 'svc \<Rightarrow> 'svc" where
  "wrap (Middleware m) next_svc = m next_svc"
| "wrap (MiddlewarePair m1 m2) next_svc = wrap m1 (wrap m2 next_svc)"

datatype 'svc into_service = AsService 'svc | Wrapped "'svc middleware" 'svc

fun into_svc :: "'svc into_service \<Rightarrow> 'svc" where
  "into_svc (AsService s) = s"
| "into_svc (Wrapped m s) = wrap m s"

record ('req, 'resp, 'w, 'x) pipeline =
  pl_handler :: "'req \<Rightarrow> ('w, 'x, 'resp) io"

definition pipeline_new ::
  "('req, 'resp, 'w, 'x) service into_service \<Rightarrow> ('req, 'resp, 'w, 'x) pipeline" where
  "pipeline_new service = (let service = into_svc service in \<lparr>pl_handler = (\<lambda>request. service request)\<rparr>)"

definition pipeline_handle :: "('req, 'resp, 'w, 'x) pipeline \<Rightarrow> ('req, 'resp, 'w, 'x) service" where
  "pipeline_handle p request = pl_handler p request"

text \<open>The single middlewares of a value, in the order a request meets them.\<close>

fun layers :: "'svc middleware \<Rightarrow> ('svc \<Rightarrow> 'svc) list" where
  "layers (Middleware m) = [m]"
| "layers (MiddlewarePair m1 m2) = layers m1 @ layers m2"

lemma wrap_foldr: "wrap m s = foldr (\<lambda>f. f) (layers m) s"
  by (induction m arbitrary: s) auto

text \<open>
  A pipeline handles a request by passing it through the single middlewares from left to
  right, however the pairs are nested, and then to the service; the pipeline itself adds
  nothing.
\<close>

theorem pipeline_runs_layers_in_order:
  "pipeline_handle (pipeline_new (Wrapped m svc)) request = foldr (\<lambda>f. f) (layers m) svc request"
  by (simp add: pipeline_handle_def pipeline_new_def wrap_foldr)

lemma pipeline_service [simp]: "pipeline_handle (pipeline_new (AsService svc)) = svc"
  by (rule ext) (simp add: pipeline_handle_def pipeline_new_def)

text \<open>A pipeline is itself a service: wrapping it in another one changes nothing.\<close>

lemma pipeline_idempotent:
  "pipeline_handle (pipeline_new (AsService (pipeline_handle p))) = pipeline_handle p"
  by simp

end
