(* ===== verification/BaseService.thy ===== *)
theory BaseService
  imports Transport Service
begin

text \<open>
  \<open>BaseService\<close> (\<open>src/base_service.rs\<close>) one request at a time: the session pool, the
  connection set-up and the sending of the request.  What other tasks do in between is
  the subject of \<open>PoolConcurrency\<close>.

  The state of a call is the pool (a map from authorities to sessions) and the world
  in which transport, application, runtime and session act.
\<close>

record ('conn, 'sess, 'driver, 'req, 'resp, 'resp2, 'w, 'x) base_service =
  bs_transport :: "('conn, 'w, 'x) transport_plugin"
  bs_app :: "('conn, 'sess, 'driver, 'w, 'x) application_plugin"
  bs_runtime :: "('driver, 'w) async_runtime"
  bs_session :: "('sess, 'req, 'resp, 'w, 'x) session"
  bs_normalize :: "'resp \<Rightarrow> 'resp2"

record ('sess, 'w) base_state =
  pool :: "string \<rightharpoonup> 'sess"
  world :: 'w

text \<open>A call on the world leaves the pool alone.\<close>

definition on_world :: "('w, 'x, 'a) io \<Rightarrow> (('sess, 'w) base_state, 'x, 'a) io" where
  "on_world m s = (case m (world s) of (r, w') \<Rightarrow> (r, s\<lparr>world := w'\<rparr>))"

declare on_world_def [io_run]

definition base_service_new ::
  "('conn, 'w, 'x) transport_plugin \<Rightarrow> ('conn, 'sess, 'driver, 'w, 'x) application_plugin \<Rightarrow>
   ('driver, 'w) async_runtime \<Rightarrow> ('sess, 'req, 'resp, 'w, 'x) session \<Rightarrow> ('resp \<Rightarrow> 'resp2) \<Rightarrow> 'w \<Rightarrow>
   ('conn, 'sess, 'driver, 'req, 'resp, 'resp2, 'w, 'x) base_service \<times> ('sess, 'w) base_state" where
  "base_service_new transport app runtime sess norm w =
     (\<lparr>bs_transport = transport, bs_app = app, bs_runtime = runtime, bs_session = sess,
       bs_normalize = norm\<rparr>, \<lparr>pool = Map.empty, world = w\<rparr>)"

text \<open>Steps 1 to 5: the pooled session, or a new one.\<close>

definition get_session ::
  "('conn, 'sess, 'driver, 'req, 'resp, 'resp2, 'w, 'x) base_service \<Rightarrow> uri \<Rightarrow> string \<Rightarrow>
   (('sess, 'w) base_state, 'x, 'sess) io" where
  "get_session B u authority s =
     (case pool s authority of
        Some occupied \<Rightarrow> (Inr occupied, s)
      | None \<Rightarrow>
          io_bind (on_world (connect (bs_transport B) u)) (\<lambda>conn.
          io_bind (on_world (handshake (bs_app B) conn)) (\<lambda>(new_session, driver) s.
            let s1 = s\<lparr>world := spawn (bs_runtime B) driver (world s)\<rparr>;
                s2 = s1\<lparr>pool := (pool s1)(authority \<mapsto> new_session)\<rparr>
            in (Inr new_session, s2))) s)"

definition base_handle ::
  "('conn, 'sess, 'driver, ('ext, 'body) request, ('ext, 'rb) response, ('ext, 'nb) response, 'w, 'x)
     base_service \<Rightarrow> ('ext, 'body) request \<Rightarrow> (('sess, 'w) base_state, 'x, ('ext, 'nb) response) io" where
  "base_handle B req s =
     (case ok_or_msg ''URI missing authority'' (uri_authority (request_uri req)) of
        Inl e \<Rightarrow> (Inl e, s)
      | Inr authority \<Rightarrow>
          io_bind (get_session B (request_uri req) authority) (\<lambda>session.
          io_bind (on_world (send_request (bs_session B) req session)) (\<lambda>(resp, _).
            io_return (bs_normalize B resp))) s)"

text \<open>\<open>Response::from_parts(res_parts, normalized body)\<close>.\<close>

definition normalize_response ::
  "('b, 'b1, 'b2, 'nb, 'd, 'nd, 'e, 'x) body_kit \<Rightarrow> ('ext, 'b) response \<Rightarrow> ('ext, 'nb) response" where
  "normalize_response kit resp =
     \<lparr>rs_parts = rs_parts resp, rs_body = normalize_body kit (rs_body resp)\<rparr>"

section \<open>Lemmas about single calls\<close>

lemma on_world_pool [simp]: "pool (snd (on_world m s)) = pool s"
  by (simp add: io_run split: prod.split)

lemma get_session_pooled: "pool s a = Some sess \<Longrightarrow> get_session B u a s = (Inr sess, s)"
  by (simp add: get_session_def)

lemma get_session_connect_error:
  "pool s a = None \<Longrightarrow> connect (bs_transport B) u (world s) = (Inl e, w1) \<Longrightarrow>
   get_session B u a s = (Inl e, s\<lparr>world := w1\<rparr>)"
  by (simp add: get_session_def io_run)

lemma get_session_handshake_error:
  "pool s a = None \<Longrightarrow> connect (bs_transport B) u (world s) = (Inr conn, w1) \<Longrightarrow>
   handshake (bs_app B) conn w1 = (Inl e, w2) \<Longrightarrow>
   get_session B u a s = (Inl e, s\<lparr>world := w2\<rparr>)"
  by (simp add: get_session_def io_run)

lemma get_session_new:
  "pool s a = None \<Longrightarrow> connect (bs_transport B) u (world s) = (Inr conn, w1) \<Longrightarrow>
   handshake (bs_app B) conn w1 = (Inr (sess, driver), w2) \<Longrightarrow>
   get_session B u a s =
     (Inr sess, s\<lparr>world := spawn (bs_runtime B) driver w2, pool := (pool s)(a \<mapsto> sess)\<rparr>)"
  by (simp add: get_session_def io_run Let_def)

text \<open>The four ways \<open>get_session\<close> can go.\<close>

lemma get_session_cases:
  obtains (pooled) sess where "pool s a = Some sess" "get_session B u a s = (Inr sess, s)"
  | (connect_error) e w1 where "pool s a = None" "connect (bs_transport B) u (world s) = (Inl e, w1)"
      "get_session B u a s = (Inl e, s\<lparr>world := w1\<rparr>)"
  | (handshake_error) conn w1 e w2 where "pool s a = None"
      "connect (bs_transport B) u (world s) = (Inr conn, w1)"
      "handshake (bs_app B) conn w1 = (Inl e, w2)"
      "get_session B u a s = (Inl e, s\<lparr>world := w2\<rparr>)"
  | (created) conn w1 sess driver w2 where "pool s a = None"
      "connect (bs_transport B) u (world s) = (Inr conn, w1)"
      "handshake (bs_app B) conn w1 = (Inr (sess, driver), w2)"
      "get_session B u a s =
        (Inr sess, s\<lparr>world := spawn (bs_runtime B) driver w2, pool := (pool s)(a \<mapsto> sess)\<rparr>)"
proof (cases "pool s a")
  case (Some sess)
  show ?thesis by (rule pooled [OF Some get_session_pooled [OF Some]])
next
  case None
  obtain r1 w1 where c: "connect (bs_transport B) u (world s) = (r1, w1)" by (rule prod.exhaust)
  show ?thesis
  proof (cases r1)
    case (Inl e)
    note c = c [unfolded Inl]
    show ?thesis by (rule connect_error [OF None c get_session_connect_error [where B = B, OF None c]])
  next
    case (Inr conn)
    note c = c [unfolded Inr]
    obtain r2 w2 where h: "handshake (bs_app B) conn w1 = (r2, w2)" by (rule prod.exhaust)
    show ?thesis
    proof (cases r2)
      case (Inl e)
      note h = h [unfolded Inl]
      show ?thesis by (rule handshake_error [OF None c h get_session_handshake_error [OF None c h]])
    next
      case r2: (Inr sd)
      obtain sess driver where "sd = (sess, driver)" by (rule prod.exhaust)
      note h = h [unfolded r2 this]
      show ?thesis by (rule created [OF None c h get_session_new [OF None c h]])
    qed
  qed
qed

lemma get_session_monotone: "pool s a' = Some x \<Longrightarrow> pool (snd (get_session B u a s)) a' = Some x"
  by (cases rule: get_session_cases [of s a B u]) auto

lemma get_session_only_key: "a' \<noteq> a \<Longrightarrow> pool (snd (get_session B u a s)) a' = pool s a'"
  by (cases rule: get_session_cases [of s a B u]) auto

lemma get_session_stores: "get_session B u a s = (Inr sess, s') \<Longrightarrow> pool s' a = Some sess"
  by (cases rule: get_session_cases [of s a B u]) auto

lemma get_session_error_pool: "get_session B u a s = (Inl e, s') \<Longrightarrow> pool s' = pool s"
  by (cases rule: get_session_cases [of s a B u]) auto

text \<open>\<open>base_handle\<close> in terms of \<open>get_session\<close> and the send.\<close>

lemma base_handle_session:
  "uri_authority (request_uri req) = Some a \<Longrightarrow> get_session B (request_uri req) a s = (Inr sess, s1) \<Longrightarrow>
   base_handle B req s =
     (case send_request (bs_session B) req sess (world s1) of
        (Inl e, w) \<Rightarrow> (Inl e, s1\<lparr>world := w\<rparr>)
      | (Inr (resp, sess'), w) \<Rightarrow> (Inr (bs_normalize B resp), s1\<lparr>world := w\<rparr>))"
  by (simp add: base_handle_def io_run split: prod.splits sum.splits)

lemma base_handle_no_session:
  "uri_authority (request_uri req) = Some a \<Longrightarrow> get_session B (request_uri req) a s = (Inl e, s1) \<Longrightarrow>
   base_handle B req s = (Inl e, s1)"
  by (simp add: base_handle_def io_run)

lemma base_handle_pool:
  "uri_authority (request_uri req) = Some a \<Longrightarrow>
   pool (snd (base_handle B req s)) = pool (snd (get_session B (request_uri req) a s))"
  by (cases "get_session B (request_uri req) a s"; cases "fst (get_session B (request_uri req) a s)")
    (auto simp: base_handle_session base_handle_no_session split: prod.splits sum.splits)

section \<open>Properties\<close>

text \<open>A service whose connections remember the scheme they were opened for, and a log of them.\<close>

definition sample_service ::
  "(string option, string option, unit, (unit, nat) request, (unit, string option) response,
    (unit, string option) response, string option list, nat) base_service" where
  "sample_service =
     \<lparr>bs_transport = \<lparr>connect = (\<lambda>u w. (Inr (uri_scheme_str u), w @ [uri_scheme_str u]))\<rparr>,
      bs_app = \<lparr>handshake = (\<lambda>c w. if c = None then (Inl (Foreign 1), w) else (Inr (c, ()), w))\<rparr>,
      bs_runtime = \<lparr>spawn = (\<lambda>_ w. w)\<rparr>,
      bs_session = \<lparr>send_request = (\<lambda>req sess w.
         (Inr (\<lparr>rs_parts = \<lparr>sp_status = 200, sp_headers = [], sp_extensions = ()\<rparr>, rs_body = sess\<rparr>,
               sess), w))\<rparr>,
      bs_normalize = (\<lambda>r. r)\<rparr>"

definition sample_request :: "string option \<Rightarrow> string option \<Rightarrow> (unit, nat) request" where
  "sample_request sch auth =
     \<lparr>rq_parts = \<lparr>rp_method = ''GET'',
        rp_uri = \<lparr>uri_scheme_str = sch, uri_authority = auth, uri_host = auth, uri_port_u16 = None\<rparr>,
        rp_version = 11, rp_headers = [], rp_extensions = ()\<rparr>, rq_body = 0\<rparr>"

definition sample_response :: "string option \<Rightarrow> (unit, string option) response" where
  "sample_response served =
     \<lparr>rs_parts = \<lparr>sp_status = 200, sp_headers = [], sp_extensions = ()\<rparr>, rs_body = served\<rparr>"

definition sample_state :: "(string \<rightharpoonup> string option) \<Rightarrow> (string option, string option list) base_state" where
  "sample_state p = \<lparr>pool = p, world = []\<rparr>"

lemmas sample_defs = sample_service_def sample_request_def sample_response_def sample_state_def

text \<open>
  A request whose URI has no authority fails with the message of the code before anything is
  done: neither the pool nor the world changes.
\<close>

theorem base_missing_authority:
  assumes "uri_authority (request_uri req) = None"
  shows "base_handle B req s = (Inl (Msg ''URI missing authority''), s)"
  using assms by (simp add: base_handle_def)

theorem base_missing_authority_witness:
  "base_handle sample_service (sample_request (Some ''http'') None) (sample_state Map.empty) =
     (Inl (Msg ''URI missing authority''), sample_state Map.empty)"
  by (rule base_missing_authority) (simp add: sample_request_def)

text \<open>
  C9: The first request to an authority connects, performs the handshake, spawns the driver,
  stores the session, and only then sends: the request is sent on the new session in the world
  the spawn left, and the pool has gained exactly that session whether or not the send
  succeeds.
\<close>

theorem base_first_request:
  assumes "uri_authority (request_uri req) = Some a" and "pool s a = None"
    and "connect (bs_transport B) (request_uri req) (world s) = (Inr conn, w1)"
    and "handshake (bs_app B) conn w1 = (Inr (sess, driver), w2)"
  shows "base_handle B req s =
     (case send_request (bs_session B) req sess (spawn (bs_runtime B) driver w2) of
        (Inl e, w) \<Rightarrow> (Inl e, \<lparr>pool = (pool s)(a \<mapsto> sess), world = w\<rparr>)
      | (Inr (resp, _), w) \<Rightarrow> (Inr (bs_normalize B resp), \<lparr>pool = (pool s)(a \<mapsto> sess), world = w\<rparr>))"
  using base_handle_session [OF assms(1) get_session_new [OF assms(2,3,4)]]
  by (simp split: prod.splits sum.splits)

theorem base_first_request_witness:
  "base_handle sample_service (sample_request (Some ''http'') (Some ''h'')) (sample_state Map.empty) =
     (case send_request (bs_session sample_service) (sample_request (Some ''http'') (Some ''h''))
             (Some ''http'') (spawn (bs_runtime sample_service) () [Some ''http'']) of
        (Inl e, w) \<Rightarrow>
          (Inl e, \<lparr>pool = (pool (sample_state Map.empty))(''h'' \<mapsto> Some ''http''), world = w\<rparr>)
      | (Inr (resp, _), w) \<Rightarrow>
          (Inr (bs_normalize sample_service resp),
           \<lparr>pool = (pool (sample_state Map.empty))(''h'' \<mapsto> Some ''http''), world = w\<rparr>))"
  by (rule base_first_request [where conn = "Some ''http''" and ?w1.0 = "[Some ''http'']"])
    (simp_all add: sample_defs)

text \<open>
  C39: When connecting or the handshake fails, the error is returned as it is, and the pool is the
  same as before: no half-made session is ever stored.
\<close>

theorem base_setup_failure:
  assumes "uri_authority (request_uri req) = Some a" and "pool s a = None"
    and "connect (bs_transport B) (request_uri req) (world s) = (c, w1)"
    and "case c of Inl e' \<Rightarrow> e' = e \<and> w2 = w1 | Inr conn \<Rightarrow> handshake (bs_app B) conn w1 = (Inl e, w2)"
  shows "base_handle B req s = (Inl e, \<lparr>pool = pool s, world = w2\<rparr>)"
proof (cases c)
  case (Inl e')
  with assms get_session_connect_error [of s a B] show ?thesis
    by (simp add: base_handle_no_session)
next
  case (Inr conn)
  with assms get_session_handshake_error [of s a B] show ?thesis
    by (simp add: base_handle_no_session)
qed

theorem base_setup_failure_witness:
  "base_handle sample_service (sample_request None (Some ''h'')) (sample_state Map.empty) =
     (Inl (Foreign 1), \<lparr>pool = pool (sample_state Map.empty), world = [None]\<rparr>)"
  by (rule base_setup_failure [where c = "Inr None" and ?w1.0 = "[None]"]) (simp_all add: sample_defs)

text \<open>
  The pool only ever grows: whatever a request does and however it fails, every session that
  was pooled stays pooled unchanged, so a session whose connection is dead keeps serving its
  authority.
\<close>

theorem base_pool_never_evicts: "pool s \<subseteq>\<^sub>m pool (snd (base_handle B req s))"
proof (cases "uri_authority (request_uri req)")
  case None
  then show ?thesis by (simp add: base_handle_def map_le_def)
next
  case (Some a)
  then show ?thesis
    using get_session_monotone [where B = B]
    by (auto simp: map_le_def base_handle_pool)
qed

text \<open>
  C40: A pooled session answers every request with its authority, whatever the scheme, port
  default, path or headers of that request: transport and application are not consulted, so
  replacing both changes nothing.
\<close>

theorem base_reuse_ignores_scheme:
  assumes "uri_authority (request_uri req) = Some a" and "pool s a = Some sess"
  shows "base_handle B req s =
       (case send_request (bs_session B) req sess (world s) of
          (Inl e, w) \<Rightarrow> (Inl e, s\<lparr>world := w\<rparr>)
        | (Inr (resp, _), w) \<Rightarrow> (Inr (bs_normalize B resp), s\<lparr>world := w\<rparr>)) \<and>
     base_handle (B\<lparr>bs_transport := T, bs_app := A\<rparr>) req s = base_handle B req s"
  using base_handle_session [OF assms(1) get_session_pooled [OF assms(2)]]
  by (simp add: base_handle_session [OF assms(1) get_session_pooled [OF assms(2)]]
      split: prod.split sum.split)

text \<open>An \<open>https\<close> request answered on the connection that an \<open>http\<close> request opened.\<close>

theorem base_reuse_ignores_scheme_witness:
  "base_handle sample_service (sample_request (Some ''https'') (Some ''h''))
     (snd (base_handle sample_service (sample_request (Some ''http'') (Some ''h'')) (sample_state Map.empty)))
     = (Inr (sample_response (Some ''http'')),
        \<lparr>pool = [''h'' \<mapsto> Some ''http''], world = [Some ''http'']\<rparr>)"
proof -
  have first: "snd (base_handle sample_service (sample_request (Some ''http'') (Some ''h''))
      (sample_state Map.empty)) = \<lparr>pool = [''h'' \<mapsto> Some ''http''], world = [Some ''http'']\<rparr>"
    by (simp add: base_handle_def get_session_def io_run sample_defs Let_def)
  have "uri_authority (request_uri (sample_request (Some ''https'') (Some ''h''))) = Some ''h''"
    by (simp add: sample_request_def)
  from base_reuse_ignores_scheme [OF this, where B = sample_service and sess = "Some ''http''"
      and s = "\<lparr>pool = [''h'' \<mapsto> Some ''http''], world = [Some ''http'']\<rparr>"]
  show ?thesis unfolding first by (simp add: sample_service_def sample_response_def)
qed

end
