(* ===== verification/PoolConcurrency.thy ===== *)
theory PoolConcurrency
  imports BaseService
begin

text \<open>
  Many calls of \<open>BaseService::handle\<close> at once.

  Each task is at one of the points where \<open>handle\<close> can be interrupted.  The pool is a
  sharded map: \<open>pool.entry(authority)\<close> takes the lock of the authority's shard, and
  the vacant entry keeps it across the two awaits of \<open>connect\<close> and \<open>handshake\<close>, until
  the insert or the early return.  Waiting for that lock blocks the worker thread that
  polls the task (it is no await), so a step of a task other than getting the lock
  needs a worker that is not blocked.  The future of a call whose task is in \<open>drops\<close> may be
  dropped at any of its awaits or before its first poll, as a timeout does: the vacant entry it
  holds is dropped with it, which unlocks the shard, and dropping needs a worker too.  \<open>shard\<close> maps authorities to shards, \<open>workers\<close>
  is the number of threads of the executor; both are arbitrary.  The answers of
  \<open>connect\<close>, \<open>handshake\<close> and \<open>send_request\<close> are arbitrary too; \<open>PoolExecution\<close> ties them to a service.
\<close>

datatype ('conn, 'sess, 'resp, 'x) task =
    Start string
  | Blocked string
  | Connecting string
  | Handshaking string 'conn
  | Sending string 'sess
  | Finished "'x error + 'resp"
  | Dropped

record ('conn, 'sess, 'resp, 'x) cstate =
  c_pool :: "string \<rightharpoonup> 'sess"
  c_guard :: "nat \<rightharpoonup> nat"
  c_tasks :: "('conn, 'sess, 'resp, 'x) task list"
  c_drivers :: "'sess list"

fun is_blocked :: "('conn, 'sess, 'resp, 'x) task \<Rightarrow> bool" where
  "is_blocked (Blocked a) = True"
| "is_blocked _ = False"

definition worker_free :: "nat \<Rightarrow> ('conn, 'sess, 'resp, 'x) cstate \<Rightarrow> bool" where
  "worker_free workers s \<longleftrightarrow> length (filter is_blocked (c_tasks s)) < workers"

definition set_task ::
  "nat \<Rightarrow> ('conn, 'sess, 'resp, 'x) task \<Rightarrow> ('conn, 'sess, 'resp, 'x) cstate \<Rightarrow>
   ('conn, 'sess, 'resp, 'x) cstate" where
  "set_task t p s = s\<lparr>c_tasks := (c_tasks s)[t := p]\<rparr>"

text \<open>What a task does once it holds the lock of its shard: the two arms of the match.\<close>

definition enter ::
  "(string \<Rightarrow> nat) \<Rightarrow> nat \<Rightarrow> string \<Rightarrow> ('conn, 'sess, 'resp, 'x) cstate \<Rightarrow>
   ('conn, 'sess, 'resp, 'x) cstate" where
  "enter shard t a s =
     (case c_pool s a of
        Some sess \<Rightarrow> set_task t (Sending a sess) s
      | None \<Rightarrow> set_task t (Connecting a) (s\<lparr>c_guard := (c_guard s)(shard a \<mapsto> t)\<rparr>))"

definition release ::
  "(string \<Rightarrow> nat) \<Rightarrow> string \<Rightarrow> ('conn, 'sess, 'resp, 'x) cstate \<Rightarrow> ('conn, 'sess, 'resp, 'x) cstate" where
  "release shard a s = s\<lparr>c_guard := (c_guard s)(shard a := None)\<rparr>"

text \<open>The authority whose lock a task keeps: that of the vacant entry it holds across an await.\<close>

fun holds :: "('conn, 'sess, 'resp, 'x) task \<Rightarrow> string option" where
  "holds (Connecting a) = Some a"
| "holds (Handshaking a conn) = Some a"
| "holds _ = None"

fun_cases holds_SomeE: "holds p = Some a"

inductive pool_step ::
  "(string \<Rightarrow> nat) \<Rightarrow> nat \<Rightarrow> nat set \<Rightarrow> ('conn, 'sess, 'resp, 'x) cstate \<Rightarrow>
   ('conn, 'sess, 'resp, 'x) cstate \<Rightarrow> bool"
  for shard workers drops where
  enter_entry: "t < length (c_tasks s) \<Longrightarrow> c_tasks s ! t = Start a \<Longrightarrow> worker_free workers s \<Longrightarrow>
     c_guard s (shard a) = None \<Longrightarrow> pool_step shard workers drops s (enter shard t a s)"
| block_entry: "t < length (c_tasks s) \<Longrightarrow> c_tasks s ! t = Start a \<Longrightarrow> worker_free workers s \<Longrightarrow>
     c_guard s (shard a) \<noteq> None \<Longrightarrow> pool_step shard workers drops s (set_task t (Blocked a) s)"
| unblock_entry: "t < length (c_tasks s) \<Longrightarrow> c_tasks s ! t = Blocked a \<Longrightarrow>
     c_guard s (shard a) = None \<Longrightarrow> pool_step shard workers drops s (enter shard t a s)"
| connect_ok: "t < length (c_tasks s) \<Longrightarrow> c_tasks s ! t = Connecting a \<Longrightarrow> worker_free workers s \<Longrightarrow>
     pool_step shard workers drops s (set_task t (Handshaking a conn) s)"
| connect_err: "t < length (c_tasks s) \<Longrightarrow> c_tasks s ! t = Connecting a \<Longrightarrow> worker_free workers s \<Longrightarrow>
     pool_step shard workers drops s (release shard a (set_task t (Finished (Inl e)) s))"
| handshake_ok: "t < length (c_tasks s) \<Longrightarrow> c_tasks s ! t = Handshaking a conn \<Longrightarrow>
     worker_free workers s \<Longrightarrow>
     pool_step shard workers drops s
       (release shard a (set_task t (Sending a sess)
          (s\<lparr>c_drivers := c_drivers s @ [sess], c_pool := (c_pool s)(a \<mapsto> sess)\<rparr>)))"
| handshake_err: "t < length (c_tasks s) \<Longrightarrow> c_tasks s ! t = Handshaking a conn \<Longrightarrow>
     worker_free workers s \<Longrightarrow>
     pool_step shard workers drops s (release shard a (set_task t (Finished (Inl e)) s))"
| respond: "t < length (c_tasks s) \<Longrightarrow> c_tasks s ! t = Sending a sess \<Longrightarrow> worker_free workers s \<Longrightarrow>
     pool_step shard workers drops s (set_task t (Finished r) s)"
| drop_idle: "t < length (c_tasks s) \<Longrightarrow> t \<in> drops \<Longrightarrow> c_tasks s ! t \<in> {Start a, Sending a sess} \<Longrightarrow>
     worker_free workers s \<Longrightarrow> pool_step shard workers drops s (set_task t Dropped s)"
| drop_setup: "t < length (c_tasks s) \<Longrightarrow> t \<in> drops \<Longrightarrow> holds (c_tasks s ! t) = Some a \<Longrightarrow>
     worker_free workers s \<Longrightarrow>
     pool_step shard workers drops s (release shard a (set_task t Dropped s))"

inductive_cases pool_stepE: "pool_step shard workers drops s s'"

definition init_cstate :: "string list \<Rightarrow> ('conn, 'sess, 'resp, 'x) cstate" where
  "init_cstate auths =
     \<lparr>c_pool = Map.empty, c_guard = Map.empty, c_tasks = map Start auths, c_drivers = []\<rparr>"

inductive reachable ::
  "(string \<Rightarrow> nat) \<Rightarrow> nat \<Rightarrow> nat set \<Rightarrow> string list \<Rightarrow> ('conn, 'sess, 'resp, 'x) cstate \<Rightarrow> bool"
  for shard workers drops auths where
  reach_init: "reachable shard workers drops auths (init_cstate auths)"
| reach_step: "reachable shard workers drops auths s \<Longrightarrow> pool_step shard workers drops s s' \<Longrightarrow>
     reachable shard workers drops auths s'"

section \<open>The invariant\<close>

text \<open>
  The lock of a shard belongs to the task that is setting up a session for an authority
  of the shard; such an authority is not in the pool; a task that sends uses the pooled
  session; there is one driver for every pooled session.
\<close>

definition pool_inv :: "(string \<Rightarrow> nat) \<Rightarrow> ('conn, 'sess, 'resp, 'x) cstate \<Rightarrow> bool" where
  "pool_inv shard s \<longleftrightarrow>
     (\<forall>t < length (c_tasks s). \<forall>a. holds (c_tasks s ! t) = Some a \<longrightarrow>
        c_guard s (shard a) = Some t \<and> c_pool s a = None) \<and>
     (\<forall>k t. c_guard s k = Some t \<longrightarrow> t < length (c_tasks s) \<and>
        (\<exists>a. holds (c_tasks s ! t) = Some a \<and> shard a = k)) \<and>
     (\<forall>t < length (c_tasks s). \<forall>a sess. c_tasks s ! t = Sending a sess \<longrightarrow> c_pool s a = Some sess) \<and>
     finite (dom (c_pool s)) \<and> length (c_drivers s) = card (dom (c_pool s))"

lemma pool_inv_init: "pool_inv shard (init_cstate auths)"
  by (simp add: pool_inv_def init_cstate_def)

lemma set_task_simps [simp]:
  "c_pool (set_task t p s) = c_pool s" "c_guard (set_task t p s) = c_guard s"
  "c_drivers (set_task t p s) = c_drivers s" "c_tasks (set_task t p s) = (c_tasks s)[t := p]"
  by (simp_all add: set_task_def)

lemma release_simps [simp]:
  "c_pool (release shard a s) = c_pool s" "c_tasks (release shard a s) = c_tasks s"
  "c_guard (release shard a s) = (c_guard s)(shard a := None)"
  "c_drivers (release shard a s) = c_drivers s"
  by (simp_all add: release_def)

lemma holds_SomeD: "holds p = Some a \<Longrightarrow> \<not> is_blocked p \<and> (\<forall>b. p \<noteq> Start b)"
  by (elim holds_SomeE) auto

text \<open>A task that holds no lock moves on without touching pool and locks.\<close>

lemma inv_set_task:
  assumes "pool_inv shard s" and "t < length (c_tasks s)" and "holds (c_tasks s ! t) = holds p"
    and "\<And>a sess. p = Sending a sess \<Longrightarrow> c_pool s a = Some sess"
  shows "pool_inv shard (set_task t p s)"
  using assms unfolding pool_inv_def by (auto simp: nth_list_update) metis

lemma inv_release:
  assumes inv: "pool_inv shard s" and t: "t < length (c_tasks s)" and h: "holds (c_tasks s ! t) = Some a"
    and p: "holds p = None" "\<And>a sess. p = Sending a sess \<Longrightarrow> c_pool s a = Some sess"
  shows "pool_inv shard (release shard a (set_task t p s))"
proof -
  have g: "c_guard s (shard a) = Some t" using inv t h by (auto simp: pool_inv_def)
  show ?thesis using inv t h p g unfolding pool_inv_def
    by (auto simp: nth_list_update split: if_splits) (metis option.inject)+
qed

lemma inv_enter:
  assumes inv: "pool_inv shard s" and t: "t < length (c_tasks s)"
    and p: "holds (c_tasks s ! t) = None" and g: "c_guard s (shard a) = None"
  shows "pool_inv shard (enter shard t a s)"
proof (cases "c_pool s a")
  case (Some sess)
  then show ?thesis using p by (auto simp: enter_def intro!: inv_set_task [OF inv t])
next
  case None
  then show ?thesis using inv t p g unfolding pool_inv_def
    by (auto simp: enter_def nth_list_update split: if_splits) fastforce
qed

lemma inv_handshake:
  assumes inv: "pool_inv shard s" and t: "t < length (c_tasks s)"
    and h: "c_tasks s ! t = Handshaking a conn"
  shows "pool_inv shard (release shard a (set_task t (Sending a sess)
     (s\<lparr>c_drivers := c_drivers s @ [sess], c_pool := (c_pool s)(a \<mapsto> sess)\<rparr>)))"
proof -
  have g: "c_guard s (shard a) = Some t" and none: "c_pool s a = None"
    using inv t h by (auto simp: pool_inv_def)
  have other: "holds (c_tasks s ! u) = Some a \<Longrightarrow> u < length (c_tasks s) \<Longrightarrow> u = t" for u
    using inv g by (auto simp: pool_inv_def)
  have card: "card (insert a (dom (c_pool s))) = Suc (card (dom (c_pool s)))"
    using inv none by (simp add: pool_inv_def domIff)
  show ?thesis using inv t h g none other card unfolding pool_inv_def
    by (auto simp: nth_list_update split: if_splits) (metis option.inject holds.simps(2))+
qed

lemma pool_step_inv: "pool_step shard workers drops s s' \<Longrightarrow> pool_inv shard s \<Longrightarrow> pool_inv shard s'"
proof (induction rule: pool_step.induct)
  case (enter_entry t s a)
  then show ?case by (intro inv_enter) auto
next
  case (block_entry t s a)
  then show ?case by (intro inv_set_task) auto
next
  case (unblock_entry t s a)
  then show ?case by (intro inv_enter) auto
next
  case (connect_ok t s a conn)
  then show ?case by (intro inv_set_task) auto
next
  case (connect_err t s a e)
  then show ?case by (intro inv_release) auto
next
  case (handshake_ok t s a conn sess)
  then show ?case by (intro inv_handshake) auto
next
  case (handshake_err t s a conn e)
  then show ?case by (intro inv_release) auto
next
  case (respond t s a sess r)
  then show ?case by (intro inv_set_task) auto
next
  case (drop_idle t s a sess)
  then show ?case by (intro inv_set_task) auto
next
  case (drop_setup t s a)
  then show ?case by (intro inv_release) auto
qed

lemma reachable_inv: "reachable shard workers drops auths s \<Longrightarrow> pool_inv shard s"
  by (induction rule: reachable.induct) (auto intro: pool_inv_init pool_step_inv)

section \<open>Safety\<close>

text \<open>
  C6: In every reachable state at most one task is setting up a session in a shard, hence for an
  authority: concurrent first requests to one authority do not race to connect.
\<close>

theorem single_setup_per_shard:
  assumes "reachable shard workers drops auths s"
    and "t < length (c_tasks s)" and "holds (c_tasks s ! t) = Some a"
    and "u < length (c_tasks s)" and "holds (c_tasks s ! u) = Some b" and "shard a = shard b"
  shows "t = u"
  using reachable_inv [OF assms(1)] assms(2-) unfolding pool_inv_def by (metis option.inject)

text \<open>The run of one task up to its handshake.\<close>

definition one_connecting :: "(unit, nat, unit, unit) cstate" where
  "one_connecting = enter (\<lambda>_. 0) 0 ''h'' (init_cstate [''h''])"

lemma one_connecting_reachable: "reachable (\<lambda>_. 0) 1 {} [''h''] one_connecting"
  unfolding one_connecting_def
  by (rule reach_step [OF reach_init enter_entry]) (simp_all add: init_cstate_def worker_free_def)

lemma one_connecting_tasks: "c_tasks one_connecting = [Connecting ''h'']"
  by (simp add: one_connecting_def enter_def init_cstate_def)

text \<open>Two tasks of the authority, of which one has entered.\<close>

definition two_entering :: "(unit, nat, unit, unit) cstate" where
  "two_entering = enter (\<lambda>_. 0) 0 ''h'' (init_cstate [''h'', ''h''])"

lemma two_entering_reachable: "reachable (\<lambda>_. 0) 1 {} [''h'', ''h''] two_entering"
  unfolding two_entering_def
  by (rule reach_step [OF reach_init enter_entry]) (simp_all add: init_cstate_def worker_free_def)

lemma two_entering_tasks: "c_tasks two_entering = [Connecting ''h'', Start ''h'']"
  by (simp add: two_entering_def enter_def init_cstate_def)

theorem single_setup_per_shard_witness:
  "{t. t < length (c_tasks two_entering) \<and> holds (c_tasks two_entering ! t) = Some ''h''} = {0}"
proof -
  have "t = 0" if "t < length (c_tasks two_entering)" "holds (c_tasks two_entering ! t) = Some ''h''" for t
    by (rule single_setup_per_shard [OF two_entering_reachable that, of 0 "''h''"])
      (simp_all add: two_entering_tasks)
  then show ?thesis by (auto simp: two_entering_tasks)
qed

text \<open>
  C22: In every reachable state there are exactly as many spawned drivers as pooled sessions, so no
  authority ever gets a second session, every task that sends uses the pooled session of
  its authority, and a locked shard is locked by a task that is setting up a session in it: no lock outlives
  its set-up, however that ends, by success, by an error or because the call is dropped.
\<close>

theorem one_driver_per_session:
  assumes "reachable shard workers drops auths s"
  shows "length (c_drivers s) = card (dom (c_pool s)) \<and>
     (\<forall>t < length (c_tasks s). \<forall>a sess. c_tasks s ! t = Sending a sess \<longrightarrow> c_pool s a = Some sess) \<and>
     (\<forall>k t. c_guard s k = Some t \<longrightarrow> (\<exists>a. t < length (c_tasks s) \<and> holds (c_tasks s ! t) = Some a \<and> shard a = k))"
  using reachable_inv [OF assms] by (simp add: pool_inv_def)

text \<open>The run of one task up to the send: enter, connected, handshake done.\<close>

definition one_handshaking :: "(unit, nat, unit, unit) cstate" where
  "one_handshaking = set_task 0 (Handshaking ''h'' ()) one_connecting"

definition one_sending :: "(unit, nat, unit, unit) cstate" where
  "one_sending = release (\<lambda>_. 0) ''h'' (set_task 0 (Sending ''h'' 7)
     (one_handshaking\<lparr>c_drivers := c_drivers one_handshaking @ [7],
        c_pool := (c_pool one_handshaking)(''h'' \<mapsto> 7)\<rparr>))"

lemma one_sending_reachable: "reachable (\<lambda>_. 0) 1 {} [''h''] one_sending"
proof -
  have "reachable (\<lambda>_. 0) 1 {} [''h''] one_handshaking" unfolding one_handshaking_def
    by (rule reach_step [OF one_connecting_reachable connect_ok])
      (simp_all add: one_connecting_tasks worker_free_def)
  then show ?thesis unfolding one_sending_def
    by (rule reach_step [OF _ handshake_ok])
      (simp_all add: one_handshaking_def one_connecting_tasks worker_free_def)
qed

theorem one_driver_per_session_witness:
  "length (c_drivers one_sending) = card (dom (c_pool one_sending)) \<and>
   c_tasks one_sending ! 0 = Sending ''h'' 7 \<and> c_pool one_sending ''h'' = Some 7 \<and> c_guard one_sending 0 = None"
proof -
  have tasks: "c_tasks one_sending = [Sending ''h'' 7]"
    by (simp add: one_sending_def one_handshaking_def one_connecting_tasks)
  note inv = one_driver_per_session [OF one_sending_reachable]
  have "c_guard one_sending 0 = None"
  proof (cases "c_guard one_sending 0")
    case (Some t)
    then have "\<exists>a. t < 1 \<and> holds ([Sending ''h'' 7 :: (unit, nat, unit, unit) task] ! t) = Some a"
      using inv unfolding tasks by fastforce
    then show ?thesis by auto
  qed
  then show ?thesis using inv tasks by simp
qed

section \<open>A reachable deadlock\<close>

text \<open>The first task connects under the lock, \<open>k\<close> others have blocked their workers.\<close>

definition jam ::
  "(string \<Rightarrow> nat) \<Rightarrow> string \<Rightarrow> string \<Rightarrow> nat \<Rightarrow> nat \<Rightarrow> ('conn, 'sess, 'resp, 'x) cstate" where
  "jam shard a b k m =
     \<lparr>c_pool = Map.empty, c_guard = [shard a \<mapsto> 0],
      c_tasks = Connecting a # replicate k (Blocked b) @ replicate m (Start b), c_drivers = []\<rparr>"

lemma jam_step:
  assumes "shard a = shard b" and "k < workers"
  shows "pool_step shard workers drops (jam shard a b k (Suc m) :: ('conn, 'sess, 'resp, 'x) cstate) (jam shard a b (Suc k) m)"
proof -
  let ?s = "jam shard a b k (Suc m) :: ('conn, 'sess, 'resp, 'x) cstate"
  have nth: "c_tasks ?s ! Suc k = Start b" by (simp add: jam_def nth_append)
  have "set_task (Suc k) (Blocked b) ?s = jam shard a b (Suc k) m"
    by (simp add: set_task_def jam_def list_update_append replicate_app_Cons_same)
  moreover have "pool_step shard workers drops ?s (set_task (Suc k) (Blocked b) ?s)"
    by (rule block_entry [OF _ nth]) (use assms in \<open>simp_all add: jam_def worker_free_def\<close>)
  ultimately show ?thesis by simp
qed

lemma jam_reachable:
  assumes "shard a = shard b" and "k \<le> workers" and "0 < workers"
  shows "reachable shard workers drops (a # replicate (k + m) b) (jam shard a b k m :: ('conn, 'sess, 'resp, 'x) cstate)"
  using assms(2)
proof (induction k arbitrary: m)
  case 0
  have "pool_step shard workers drops (init_cstate (a # replicate m b) :: ('conn, 'sess, 'resp, 'x) cstate)
      (enter shard 0 a (init_cstate (a # replicate m b)))"
    by (rule enter_entry) (use assms in \<open>simp_all add: init_cstate_def worker_free_def\<close>)
  from reach_step [OF reach_init this] show ?case
    by (simp add: enter_def init_cstate_def set_task_def jam_def)
next
  case (Suc k)
  have "reachable shard workers drops (a # replicate (k + Suc m) b)
      (jam shard a b k (Suc m) :: ('conn, 'sess, 'resp, 'x) cstate)"
    using Suc.IH [of "Suc m"] Suc.prems by simp
  from reach_step [OF this jam_step [OF assms(1)]] Suc.prems show ?case by simp
qed

lemma jam_stuck: "shard a = shard b \<Longrightarrow> \<not> pool_step shard (Suc n) drops (jam shard a b (Suc n) 0) s'"
  by (auto elim!: pool_stepE simp: jam_def worker_free_def nth_Cons' split: if_splits)

text \<open>
  C23: Keeping the lock of the shard across the awaits can stop the client for good: on an
  executor with any number of worker threads there is a reachable state in which one task is
  connecting, every worker is blocked in \<open>pool.entry\<close> by a task of the same shard, and no
  step at all is possible, whatever the transport answers.
\<close>

theorem base_service_can_deadlock:
  assumes "shard a = shard b"
  shows "\<exists>s :: ('conn, 'sess, 'resp, 'x) cstate.
           reachable shard (Suc n) drops (a # replicate (Suc n) b) s \<and>
           c_tasks s = Connecting a # replicate (Suc n) (Blocked b) \<and>
           (\<forall>s'. \<not> pool_step shard (Suc n) drops s s')"
proof (intro exI conjI allI)
  let ?s = "jam shard a b (Suc n) 0 :: ('conn, 'sess, 'resp, 'x) cstate"
  show "reachable shard (Suc n) drops (a # replicate (Suc n) b) ?s"
    using jam_reachable [OF assms, where m = 0 and k = "Suc n" and workers = "Suc n"] by simp
  show "c_tasks ?s = Connecting a # replicate (Suc n) (Blocked b)" by (simp add: jam_def)
  show "\<not> pool_step shard (Suc n) drops ?s s'" for s' by (rule jam_stuck [OF assms])
qed

theorem base_service_can_deadlock_witness:
  "\<exists>s :: (unit, nat, unit, unit) cstate.
     reachable (\<lambda>_. 0) (Suc 0) UNIV (''example.org'' # replicate (Suc 0) ''example.org'') s \<and>
     c_tasks s = Connecting ''example.org'' # replicate (Suc 0) (Blocked ''example.org'') \<and>
     (\<forall>s'. \<not> pool_step (\<lambda>_. 0) (Suc 0) UNIV s s')"
  by (rule base_service_can_deadlock) simp

section \<open>Termination and progress\<close>

fun rank :: "('conn, 'sess, 'resp, 'x) task \<Rightarrow> nat" where
  "rank (Start a) = 5"
| "rank (Blocked a) = 4"
| "rank (Connecting a) = 3"
| "rank (Handshaking a conn) = 2"
| "rank (Sending a sess) = 1"
| "rank (Finished r) = 0"
| "rank Dropped = 0"

definition total_rank :: "('conn, 'sess, 'resp, 'x) cstate \<Rightarrow> nat" where
  "total_rank s = sum_list (map rank (c_tasks s))"

fun is_finished :: "('conn, 'sess, 'resp, 'x) task \<Rightarrow> bool" where
  "is_finished (Finished r) = True"
| "is_finished _ = False"

fun is_over :: "('conn, 'sess, 'resp, 'x) task \<Rightarrow> bool" where
  "is_over (Finished r) = True"
| "is_over Dropped = True"
| "is_over _ = False"

lemma rank_holds: "holds p = Some a \<Longrightarrow> 0 < rank p"
  by (elim holds_SomeE) auto

lemma pool_step_rank: "pool_step shard workers drops s s' \<Longrightarrow> total_rank s' < total_rank s"
  by (induction rule: pool_step.induct)
    (auto simp: total_rank_def enter_def rank_holds intro!: sum_list_update_less split: option.splits)

lemma pool_step_length: "pool_step shard workers drops s s' \<Longrightarrow> length (c_tasks s') = length (c_tasks s)"
  by (induction rule: pool_step.induct) (auto simp: enter_def split: option.splits)

lemma worker_free_if:
  assumes "length (c_tasks s) \<le> workers" and "p \<in> set (c_tasks s)" and "\<not> is_blocked p"
  shows "worker_free workers s"
  using assms length_filter_less [of p "c_tasks s" is_blocked] by (simp add: worker_free_def)

text \<open>Where only waiting calls are left, none of them waits for long.\<close>

lemma blocked_unlocked:
  assumes inv: "pool_inv shard s" and t: "t < length (c_tasks s)" "\<not> is_over (c_tasks s ! t)"
    and only: "\<And>u. u < length (c_tasks s) \<Longrightarrow> is_over (c_tasks s ! u) \<or> is_blocked (c_tasks s ! u)"
  obtains a where "c_tasks s ! t = Blocked a" and "c_guard s (shard a) = None"
proof -
  obtain a where a: "c_tasks s ! t = Blocked a" using only [OF t(1)] t(2) by (cases "c_tasks s ! t") auto
  have "c_guard s (shard a) = None"
  proof (rule ccontr)
    assume "c_guard s (shard a) \<noteq> None"
    then obtain u b where "u < length (c_tasks s)" "holds (c_tasks s ! u) = Some b"
      using inv unfolding pool_inv_def by blast
    then show False using only [of u] by (auto elim: holds_SomeE)
  qed
  then show thesis by (rule that [OF a])
qed

lemma blocked_progress:
  assumes "pool_inv shard s" and "t < length (c_tasks s)" and "\<not> is_over (c_tasks s ! t)"
    and "\<And>u. u < length (c_tasks s) \<Longrightarrow> is_over (c_tasks s ! u) \<or> is_blocked (c_tasks s ! u)"
  shows "\<exists>s'. pool_step shard workers drops s s'"
proof -
  obtain a where a: "c_tasks s ! t = Blocked a" "c_guard s (shard a) = None" by (rule blocked_unlocked [OF assms])
  from unblock_entry [where shard = shard, OF assms(2) a] show ?thesis by blast
qed

lemma free_progress:
  assumes free: "worker_free workers s" and u: "u < length (c_tasks s)"
    and "\<not> is_over (c_tasks s ! u)" and "\<not> is_blocked (c_tasks s ! u)"
  shows "\<exists>s'. pool_step shard workers drops s s'"
proof (cases "c_tasks s ! u")
  case (Start a)
  show ?thesis
    using enter_entry [OF u Start free] block_entry [OF u Start free]
    by (cases "c_guard s (shard a)") blast+
qed (use u assms in \<open>auto intro: connect_err handshake_err respond\<close>)

lemma pool_progress:
  assumes "pool_inv shard s" and "length (c_tasks s) \<le> workers"
    and "t < length (c_tasks s)" and "\<not> is_over (c_tasks s ! t)"
  shows "\<exists>s'. pool_step shard workers drops s s'"
  using blocked_progress [OF assms(1,3,4)] free_progress worker_free_if [OF assms(2)] nth_mem by metis

lemma reachable_length: "reachable shard workers drops auths s \<Longrightarrow> length (c_tasks s) = length auths"
  by (induction rule: reachable.induct) (simp_all add: init_cstate_def pool_step_length)

lemma reachable_steps:
  "(pool_step shard workers drops)\<^sup>*\<^sup>* s s' \<Longrightarrow> reachable shard workers drops auths s \<Longrightarrow>
   reachable shard workers drops auths s'"
  by (induction rule: rtranclp_induct) (auto intro: reach_step)

definition stuck :: "(string \<Rightarrow> nat) \<Rightarrow> nat \<Rightarrow> nat set \<Rightarrow> ('conn, 'sess, 'resp, 'x) cstate \<Rightarrow> bool" where
  "stuck shard workers drops s \<longleftrightarrow> (\<forall>s'. \<not> pool_step shard workers drops s s')"

lemma stuck_over:
  assumes "reachable shard workers drops auths s" and "length auths \<le> workers" and "stuck shard workers drops s"
  shows "list_all is_over (c_tasks s)"
  using pool_progress [OF reachable_inv [OF assms(1)]] reachable_length [OF assms(1)] assms(2,3)
  by (auto simp: list_all_length stuck_def)

lemma runs_end: "\<exists>s'. (pool_step shard workers drops)\<^sup>*\<^sup>* s s' \<and> stuck shard workers drops s'"
proof (induction "total_rank s" arbitrary: s rule: less_induct)
  case less
  show ?case
  proof (cases "stuck shard workers drops s")
    case False
    then obtain s1 where step: "pool_step shard workers drops s s1" by (auto simp: stuck_def)
    from less [OF pool_step_rank [OF step]] step show ?thesis
      by (meson converse_rtranclp_into_rtranclp)
  qed blast
qed

lemma step_dropped:
  "pool_step shard workers drops s s' \<Longrightarrow> t < length (c_tasks s) \<Longrightarrow> c_tasks s' ! t = Dropped \<Longrightarrow>
   c_tasks s ! t = Dropped \<or> t \<in> drops"
  by (induction rule: pool_step.induct)
    (auto simp: enter_def nth_list_update split: option.splits if_splits)

lemma only_drops_dropped:
  "reachable shard workers drops auths s \<Longrightarrow> t < length auths \<Longrightarrow> c_tasks s ! t = Dropped \<Longrightarrow> t \<in> drops"
  by (induction rule: reachable.induct) (auto simp: init_cstate_def reachable_length dest: step_dropped)

lemma over_cases: "is_over p \<longleftrightarrow> is_finished p \<or> p = Dropped"
  by (cases p) auto

lemma over_no_step: "pool_step shard workers drops s s' \<Longrightarrow> \<not> list_all is_over (c_tasks s)"
  by (induction rule: pool_step.induct) (force simp: list_all_length elim: holds_SomeE)+

lemma no_worker_no_step:
  assumes "pool_step shard workers drops s s'" and "\<not> worker_free workers s"
  shows "\<exists>a. Blocked a \<in> set (c_tasks s) \<and> c_guard s (shard a) = None"
  using assms by (cases rule: pool_step.cases) (metis nth_mem)+

text \<open>
  C24: The deadlocks of the client, exactly: a reachable state in which no step is possible is one where all calls
  are over, or one where every worker thread is blocked in \<open>pool.entry\<close> by a call whose shard is locked.
  So the locks alone never block the client, only together with the threads they take away.
\<close>

theorem deadlock_iff:
  assumes "reachable shard workers drops auths s"
  shows "(\<nexists>s'. pool_step shard workers drops s s') \<longleftrightarrow>
    list_all is_over (c_tasks s) \<or>
    \<not> worker_free workers s \<and> (\<forall>a. Blocked a \<in> set (c_tasks s) \<longrightarrow> c_guard s (shard a) \<noteq> None)"
proof
  assume stuck: "\<nexists>s'. pool_step shard workers drops s s'"
  show "list_all is_over (c_tasks s) \<or>
    \<not> worker_free workers s \<and> (\<forall>a. Blocked a \<in> set (c_tasks s) \<longrightarrow> c_guard s (shard a) \<noteq> None)"
  proof (cases "list_all is_over (c_tasks s)")
    case False
    then obtain t where t: "t < length (c_tasks s)" "\<not> is_over (c_tasks s ! t)" by (auto simp: list_all_length)
    have "\<not> worker_free workers s"
      using blocked_progress [OF reachable_inv [OF assms] t] free_progress stuck by blast
    moreover have "c_guard s (shard a) \<noteq> None" if "Blocked a \<in> set (c_tasks s)" for a
      using that stuck unblock_entry [where shard = shard and workers = workers and drops = drops]
      by (metis in_set_conv_nth)
    ultimately show ?thesis by blast
  qed simp
qed (use over_no_step no_worker_no_step in blast)

text \<open>One worker, a call that connects and one that waits for the lock of the same shard.\<close>

theorem deadlock_iff_witness:
  "\<exists>s :: (unit, nat, unit, unit) cstate. (\<nexists>s'. pool_step (\<lambda>_. 0) 1 UNIV s s') \<and>
     c_tasks s = [Connecting ''h'', Blocked ''h'']"
proof -
  let ?s = "jam (\<lambda>_. 0) ''h'' ''h'' 1 0 :: (unit, nat, unit, unit) cstate"
  have "reachable (\<lambda>_. 0) 1 UNIV (''h'' # replicate (1 + 0) ''h'') ?s" by (rule jam_reachable) simp_all
  from deadlock_iff [OF this] have "\<nexists>s'. pool_step (\<lambda>_. 0) 1 UNIV ?s s'"
    by (simp add: jam_def worker_free_def)
  then show ?thesis by (intro exI [of _ ?s]) (simp add: jam_def)
qed

text \<open>
  C25: With at least as many workers as concurrent calls the client never gets stuck: every step
  lowers a measure, so every run from a reachable state comes to an end, and where it ends every call
  that was not given up has been answered, however the other calls are dropped.
\<close>

theorem enough_workers_all_answered:
  assumes "reachable shard workers drops auths s" and "length auths \<le> workers"
  shows "(\<exists>s'. (pool_step shard workers drops)\<^sup>*\<^sup>* s s' \<and> stuck shard workers drops s') \<and>
     (\<forall>s' t. (pool_step shard workers drops)\<^sup>*\<^sup>* s s' \<and> stuck shard workers drops s' \<and> t < length auths \<longrightarrow>
        is_finished (c_tasks s' ! t) \<or> t \<in> drops \<and> c_tasks s' ! t = Dropped) \<and>
     (\<forall>s' s''. pool_step shard workers drops s' s'' \<longrightarrow> total_rank s'' < total_rank s')"
proof (intro conjI allI impI)
  fix s' t
  assume "(pool_step shard workers drops)\<^sup>*\<^sup>* s s' \<and> stuck shard workers drops s' \<and> t < length auths"
  then have r: "reachable shard workers drops auths s'" "stuck shard workers drops s'" "t < length auths"
    using reachable_steps [OF _ assms(1)] by auto
  then have "is_over (c_tasks s' ! t)"
    using stuck_over [OF r(1) assms(2)] reachable_length [OF r(1)] by (simp add: list_all_length)
  then show "is_finished (c_tasks s' ! t) \<or> t \<in> drops \<and> c_tasks s' ! t = Dropped"
    using only_drops_dropped [OF r(1,3)] by (auto simp: over_cases)
qed (use runs_end pool_step_rank in blast)+

theorem enough_workers_all_answered_witness:
  "\<exists>s' :: (unit, nat, unit, unit) cstate.
     (pool_step (\<lambda>_. 0) 2 {1})\<^sup>*\<^sup>* (init_cstate [''h'', ''h'']) s' \<and> is_finished (c_tasks s' ! 0) \<and>
     (is_finished (c_tasks s' ! 1) \<or> c_tasks s' ! 1 = Dropped)"
proof -
  note ends = enough_workers_all_answered [OF reach_init, of "[''h'', ''h'']" 2 "\<lambda>_. 0" "{1}"]
  obtain s' :: "(unit, nat, unit, unit) cstate" where run: "(pool_step (\<lambda>_. 0) 2 {1})\<^sup>*\<^sup>* (init_cstate [''h'', ''h'']) s'"
      and "stuck (\<lambda>_. 0) 2 {1} s'"
    using conjunct1 [OF ends] by auto
  then have "is_finished (c_tasks s' ! t) \<or> t = 1 \<and> c_tasks s' ! t = Dropped" if "t < 2" for t
    using conjunct1 [OF conjunct2 [OF ends], rule_format, of s' t] that by auto
  from this [of 0] this [of 1] run show ?thesis by auto
qed

end
