(* ===== verification/PoolExecution.thy ===== *)
theory PoolExecution
  imports PoolConcurrency
begin

text \<open>
  The interleaved calls of \<open>PoolConcurrency\<close> with a service behind them: where \<open>pool_step\<close>
  takes any answer of a transport, a protocol or a session, \<open>live_step\<close> calls the functions of the service
  on the world, with the request of the call, so that connections, sessions, errors and answers are the
  ones the service gives.  A state is that of the calls and the world; an awaited call of another component
  acts on the world in one step, between the steps of other calls.

  Every step is one of \<open>pool_step\<close> (\<open>live_step_pool\<close>), so all that is shown there holds here.
  \<open>base_handle\<close> is compared with the steps of one call in both directions.
\<close>

type_synonym ('conn, 'sess, 'resp, 'w, 'x) live = "('conn, 'sess, 'resp, 'x) cstate \<times> 'w"

inductive live_step ::
  "(string \<Rightarrow> nat) \<Rightarrow> nat \<Rightarrow> nat set \<Rightarrow>
   ('conn, 'sess, 'driver, ('ext, 'b) request, ('ext, 'rb) response, ('ext, 'nb) response, 'w, 'x) base_service \<Rightarrow>
   (nat \<Rightarrow> ('ext, 'b) request) \<Rightarrow> nat \<Rightarrow>
   ('conn, 'sess, ('ext, 'nb) response, 'w, 'x) live \<Rightarrow> ('conn, 'sess, ('ext, 'nb) response, 'w, 'x) live \<Rightarrow> bool"
  for shard workers drops B reqs t where
  at_entry: "t < length (c_tasks s) \<Longrightarrow> c_tasks s ! t = Start a \<Longrightarrow> worker_free workers s \<Longrightarrow>
     c_guard s (shard a) = None \<Longrightarrow> live_step shard workers drops B reqs t (s, w) (enter shard t a s, w)"
| at_locked_entry: "t < length (c_tasks s) \<Longrightarrow> c_tasks s ! t = Start a \<Longrightarrow> worker_free workers s \<Longrightarrow>
     c_guard s (shard a) \<noteq> None \<Longrightarrow> live_step shard workers drops B reqs t (s, w) (set_task t (Blocked a) s, w)"
| unlocked: "t < length (c_tasks s) \<Longrightarrow> c_tasks s ! t = Blocked a \<Longrightarrow>
     c_guard s (shard a) = None \<Longrightarrow> live_step shard workers drops B reqs t (s, w) (enter shard t a s, w)"
| connected: "t < length (c_tasks s) \<Longrightarrow> c_tasks s ! t = Connecting a \<Longrightarrow> worker_free workers s \<Longrightarrow>
     connect (bs_transport B) (request_uri (reqs t)) w = (Inr conn, w') \<Longrightarrow>
     live_step shard workers drops B reqs t (s, w) (set_task t (Handshaking a conn) s, w')"
| connect_failed: "t < length (c_tasks s) \<Longrightarrow> c_tasks s ! t = Connecting a \<Longrightarrow> worker_free workers s \<Longrightarrow>
     connect (bs_transport B) (request_uri (reqs t)) w = (Inl e, w') \<Longrightarrow>
     live_step shard workers drops B reqs t (s, w) (release shard a (set_task t (Finished (Inl e)) s), w')"
| shaken: "t < length (c_tasks s) \<Longrightarrow> c_tasks s ! t = Handshaking a conn \<Longrightarrow> worker_free workers s \<Longrightarrow>
     handshake (bs_app B) conn w = (Inr (sess, driver), w') \<Longrightarrow>
     live_step shard workers drops B reqs t (s, w)
       (release shard a (set_task t (Sending a sess)
          (s\<lparr>c_drivers := c_drivers s @ [sess], c_pool := (c_pool s)(a \<mapsto> sess)\<rparr>)), spawn (bs_runtime B) driver w')"
| shake_failed: "t < length (c_tasks s) \<Longrightarrow> c_tasks s ! t = Handshaking a conn \<Longrightarrow> worker_free workers s \<Longrightarrow>
     handshake (bs_app B) conn w = (Inl e, w') \<Longrightarrow>
     live_step shard workers drops B reqs t (s, w) (release shard a (set_task t (Finished (Inl e)) s), w')"
| answered: "t < length (c_tasks s) \<Longrightarrow> c_tasks s ! t = Sending a sess \<Longrightarrow> worker_free workers s \<Longrightarrow>
     send_request (bs_session B) (reqs t) sess w = (Inr (resp, sess'), w') \<Longrightarrow>
     live_step shard workers drops B reqs t (s, w) (set_task t (Finished (Inr (bs_normalize B resp))) s, w')"
| send_failed: "t < length (c_tasks s) \<Longrightarrow> c_tasks s ! t = Sending a sess \<Longrightarrow> worker_free workers s \<Longrightarrow>
     send_request (bs_session B) (reqs t) sess w = (Inl e, w') \<Longrightarrow>
     live_step shard workers drops B reqs t (s, w) (set_task t (Finished (Inl e)) s, w')"
| given_up: "t < length (c_tasks s) \<Longrightarrow> t \<in> drops \<Longrightarrow> c_tasks s ! t \<in> {Start a, Sending a sess} \<Longrightarrow>
     worker_free workers s \<Longrightarrow> live_step shard workers drops B reqs t (s, w) (set_task t Dropped s, w)"
| set_up_given_up: "t < length (c_tasks s) \<Longrightarrow> t \<in> drops \<Longrightarrow> holds (c_tasks s ! t) = Some a \<Longrightarrow>
     worker_free workers s \<Longrightarrow>
     live_step shard workers drops B reqs t (s, w) (release shard a (set_task t Dropped s), w)"

inductive_cases live_stepE: "live_step shard workers drops B reqs t (s, w) x"

section \<open>The steps are those of the pool\<close>

lemma live_step_pool:
  "live_step shard workers drops B reqs t x y \<Longrightarrow> pool_step shard workers drops (fst x) (fst y)"
  by (induction rule: live_step.induct) (auto intro: pool_step.intros)

text \<open>Runs of all the calls together stay among the reachable states of \<open>PoolConcurrency\<close>.\<close>

definition live_any where
  "live_any shard workers drops B reqs x y \<longleftrightarrow> (\<exists>t. live_step shard workers drops B reqs t x y)"

lemma live_any_pool: "live_any shard workers drops B reqs x y \<Longrightarrow> pool_step shard workers drops (fst x) (fst y)"
  unfolding live_any_def by (erule exE) (rule live_step_pool)

lemma live_reachable:
  assumes "(live_any shard workers drops B reqs)\<^sup>*\<^sup>* (init_cstate auths, w) x"
  shows "reachable shard workers drops auths (fst x)"
  using assms
proof (induction rule: rtranclp_induct)
  case base
  show ?case by (simp add: reach_init)
next
  case (step x y)
  show ?case by (rule reach_step [OF step.IH live_any_pool [OF step.hyps(2)]])
qed

section \<open>The steps of one call are determined\<close>

lemma live_step_det:
  assumes "t \<notin> drops" and "live_step shard workers drops B reqs t x y" and "live_step shard workers drops B reqs t x z"
  shows "z = y"
  using assms(2,3,1)
  by (induction rule: live_step.induct) (erule live_stepE; simp)+

lemma det_end_unique:
  assumes det: "\<And>x y z. R x y \<Longrightarrow> R x z \<Longrightarrow> z = y" and "R\<^sup>*\<^sup>* x y" and "R\<^sup>*\<^sup>* x z"
    and ends: "\<And>u. \<not> R y u" "\<And>u. \<not> R z u"
  shows "z = y"
  using assms(2,3)
proof (induction rule: converse_rtranclp_induct)
  case base
  then show ?case by (cases rule: converse_rtranclpE) (simp_all add: ends)
next
  case (step x x')
  from step.prems show ?case
  proof (cases rule: converse_rtranclpE)
    case base
    with step.hyps(1) ends(2) show ?thesis by simp
  next
    case (step x'')
    with det [OF \<open>R x x'\<close>, of x''] show ?thesis using \<open>R\<^sup>*\<^sup>* x' z \<Longrightarrow> z = y\<close> by simp
  qed
qed

lemma answered_no_step: "c_tasks s ! t = Finished r \<Longrightarrow> \<not> live_step shard workers drops B reqs t (s, w) y"
  by (rule notI) (erule live_stepE; simp)

section \<open>One call alone\<close>

lemma worker_free_set_task [simp]:
  "t < length (c_tasks s) \<Longrightarrow> is_blocked (c_tasks s ! t) = is_blocked p \<Longrightarrow>
   worker_free workers (set_task t p s) = worker_free workers s"
proof -
  have "t < length xs \<Longrightarrow> is_blocked (xs ! t) = is_blocked p \<Longrightarrow>
      length (filter is_blocked (xs[t := p])) = length (filter is_blocked xs)" for xs
  proof (induction xs arbitrary: t)
    case (Cons x xs)
    then show ?case by (cases t) auto
  qed simp
  then show "t < length (c_tasks s) \<Longrightarrow> is_blocked (c_tasks s ! t) = is_blocked p \<Longrightarrow> ?thesis"
    by (simp add: worker_free_def)
qed

lemma worker_free_guard [simp]:
  "worker_free workers (s\<lparr>c_guard := g\<rparr>) = worker_free workers s"
  "worker_free workers (s\<lparr>c_drivers := d, c_pool := q\<rparr>) = worker_free workers s"
  by (simp_all add: worker_free_def)

lemma worker_free_release [simp]: "worker_free workers (release shard a s) = worker_free workers s"
  by (simp add: worker_free_def)

text \<open>The state of the calls after \<open>base_handle\<close> has answered \<open>r\<close> and left the pool \<open>p\<close>.\<close>

definition after_handle ::
  "nat \<Rightarrow> string \<Rightarrow> 'x error + 'resp \<Rightarrow> (string \<rightharpoonup> 'sess) \<Rightarrow> ('conn, 'sess, 'resp, 'x) cstate \<Rightarrow>
   ('conn, 'sess, 'resp, 'x) cstate" where
  "after_handle t a r p cs =
     cs\<lparr>c_tasks := (c_tasks cs)[t := Finished r], c_pool := p,
        c_drivers := c_drivers cs @ (if c_pool cs a = None then (case p a of Some sess \<Rightarrow> [sess] | None \<Rightarrow> []) else [])\<rparr>"

lemma after_handle_same: "after_handle t a r (c_pool cs) cs = set_task t (Finished r) cs"
  by (cases cs) (simp add: after_handle_def set_task_def split: option.split)

lemma created_state:
  assumes "c_pool cs a = None" and "c_guard cs (shard a) = None"
  shows "set_task t (Finished r) (release shard a (set_task t (Sending a sess)
      ((set_task t (Handshaking a conn) (set_task t (Connecting a) (cs\<lparr>c_guard := (c_guard cs)(shard a \<mapsto> t')\<rparr>)))
        \<lparr>c_drivers := c_drivers (set_task t (Handshaking a conn) (set_task t (Connecting a)
            (cs\<lparr>c_guard := (c_guard cs)(shard a \<mapsto> t')\<rparr>))) @ [sess],
          c_pool := (c_pool (set_task t (Handshaking a conn) (set_task t (Connecting a)
            (cs\<lparr>c_guard := (c_guard cs)(shard a \<mapsto> t')\<rparr>))))(a \<mapsto> sess)\<rparr>))) =
    after_handle t a r ((c_pool cs)(a \<mapsto> sess)) cs"
proof -
  have "(c_guard cs)(shard a := None) = c_guard cs" using assms(2) by (simp add: fun_upd_idem)
  with assms(1) show ?thesis by (cases cs) (simp add: after_handle_def release_def set_task_def)
qed

lemma send_runs:
  assumes t: "t < length (c_tasks s)" "c_tasks s ! t = Sending a sess" and free: "worker_free workers s"
  shows "live_step shard workers drops B reqs t (s, w)
     (case send_request (bs_session B) (reqs t) sess w of
        (Inl e, w') \<Rightarrow> (set_task t (Finished (Inl e)) s, w')
      | (Inr (resp, sess'), w') \<Rightarrow> (set_task t (Finished (Inr (bs_normalize B resp))) s, w'))"
  using answered [where w = w and B = B and reqs = reqs, OF t free] send_failed [where w = w and B = B and reqs = reqs, OF t free]
  by (auto split: prod.splits sum.splits)

text \<open>
  Alone, with a worker and the lock of its shard free, a call runs as \<open>base_handle\<close> does.
\<close>

lemma handle_runs:
  fixes cs :: "('conn, 'sess, ('ext, 'nb) response, 'x) cstate"
  assumes handle: "base_handle B (reqs t) s = (r, s')" and auth: "uri_authority (request_uri (reqs t)) = Some a"
    and t: "t < length (c_tasks cs)" "c_tasks cs ! t = Start a"
    and free: "worker_free workers cs" "c_guard cs (shard a) = None" and pool: "c_pool cs = pool s"
  shows "(live_step shard workers drops B reqs t)\<^sup>*\<^sup>* (cs, world s) (after_handle t a r (pool s') cs, world s')"
proof -
  let ?step = "live_step shard workers drops B reqs t"
  let ?c = "set_task t (Connecting a) (cs\<lparr>c_guard := (c_guard cs)(shard a \<mapsto> t)\<rparr>)"
  have unlocked: "(c_guard cs)(shard a := None) = c_guard cs" using free(2) by (simp add: fun_upd_idem)
  have enter: "live_step shard workers drops B reqs t (cs, w) (enter shard t a cs, w)" for w
    by (rule at_entry [where shard = shard and a = a, OF t free])
  let ?h = "\<lambda>conn. set_task t (Handshaking a conn) ?c"
  have entered: "?step (cs, world s) (?c, world s)" if "pool s a = None"
    using enter [of "world s"] that pool by (simp add: enter_def)
  have shaking: "?step (?c, world s) (?h conn, w1)"
    if "connect (bs_transport B) (request_uri (reqs t)) (world s) = (Inr conn, w1)" for conn w1
    by (rule connected) (use t free that in simp_all)
  note steps = converse_rtranclp_into_rtranclp [where r = ?step]
  show ?thesis
  proof (cases rule: get_session_cases [of s a B "request_uri (reqs t)"])
    case (pooled sess)
    let ?u = "set_task t (Sending a sess) cs"
    have pooled_step: "?step (cs, world s) (?u, world s)"
      using enter [of "world s"] pooled(1) pool by (simp add: enter_def)
    have "?step (?u, world s)
       (case send_request (bs_session B) (reqs t) sess (world s) of
          (Inl e, w') \<Rightarrow> (set_task t (Finished (Inl e)) ?u, w')
        | (Inr (resp, sess'), w') \<Rightarrow> (set_task t (Finished (Inr (bs_normalize B resp))) ?u, w'))"
      by (rule send_runs) (use t free in simp_all)
    then have "?step (?u, world s) (after_handle t a r (pool s') cs, world s')"
      using handle base_handle_session [OF auth pooled(2)] after_handle_same [of t a _ cs, unfolded pool]
      by (auto simp: set_task_def split: prod.splits sum.splits)
    from steps [OF pooled_step r_into_rtranclp [of ?step, OF this]] show ?thesis .
  next
    case (connect_error e w1)
    have result: "r = Inl e" "pool s' = pool s" "world s' = w1"
      using base_handle_no_session [OF auth connect_error(3)] handle by simp_all
    have "?step (?c, world s) (release shard a (set_task t (Finished (Inl e)) ?c), w1)"
      by (rule connect_failed) (use t free connect_error(2) in simp_all)
    also have "release shard a (set_task t (Finished (Inl e)) ?c) = after_handle t a r (pool s') cs"
      by (simp add: release_def set_task_def after_handle_def unlocked result pool connect_error(1))
    finally have "?step (?c, world s) (after_handle t a r (pool s') cs, world s')" unfolding result(3) .
    from steps [OF entered [OF connect_error(1)] r_into_rtranclp [of ?step, OF this]] show ?thesis .
  next
    case (handshake_error conn w1 e w2)
    have result: "r = Inl e" "pool s' = pool s" "world s' = w2"
      using base_handle_no_session [OF auth handshake_error(4)] handle by simp_all
    have "?step (?h conn, w1) (release shard a (set_task t (Finished (Inl e)) (?h conn)), w2)"
      by (rule shake_failed) (use t free handshake_error(3) in simp_all)
    also have "release shard a (set_task t (Finished (Inl e)) (?h conn)) = after_handle t a r (pool s') cs"
      by (simp add: release_def set_task_def after_handle_def unlocked result pool handshake_error(1))
    finally have "?step (?h conn, w1) (after_handle t a r (pool s') cs, world s')" unfolding result(3) .
    from steps [OF entered [OF handshake_error(1)] steps [OF shaking [OF handshake_error(2)] r_into_rtranclp [of ?step, OF this]]]
    show ?thesis .
  next
    case (created conn w1 sess driver w2)
    let ?v = "release shard a (set_task t (Sending a sess)
        ((?h conn)\<lparr>c_drivers := c_drivers (?h conn) @ [sess], c_pool := (c_pool (?h conn))(a \<mapsto> sess)\<rparr>))"
    have spawned: "?step (?h conn, w1) (?v, spawn (bs_runtime B) driver w2)"
      by (rule shaken) (use t free created(3) in simp_all)
    have ended: "set_task t (Finished r) ?v = after_handle t a r ((pool s)(a \<mapsto> sess)) cs" for r
      using created_state [of cs a shard] created(1) free(2) by (simp only: pool)
    have "?step (?v, spawn (bs_runtime B) driver w2)
       (case send_request (bs_session B) (reqs t) sess (spawn (bs_runtime B) driver w2) of
          (Inl e, w') \<Rightarrow> (set_task t (Finished (Inl e)) ?v, w')
        | (Inr (resp, sess'), w') \<Rightarrow> (set_task t (Finished (Inr (bs_normalize B resp))) ?v, w'))"
      by (rule send_runs) (use t free in simp_all)
    then have "?step (?v, spawn (bs_runtime B) driver w2) (after_handle t a r (pool s') cs, world s')"
      unfolding ended
      using handle base_handle_session [OF auth created(4)] by (auto split: prod.splits sum.splits)
    from steps [OF entered [OF created(1)] steps [OF shaking [OF created(2)] steps [OF spawned r_into_rtranclp [of ?step, OF this]]]]
    show ?thesis .
  qed
qed

text \<open>
  C21: \<open>handle\<close> written as one function and as the steps of a call between its awaits are the same: a call
  that runs alone, with a worker and the lock of its shard free and not given up, comes to an answer exactly
  in the state that \<open>base_handle\<close> gives it. Its answer is that of \<open>base_handle\<close>, the pool and the world are those that
  \<open>base_handle\<close> leaves (with the session, the error, the spawned driver and the response that the service gives), no
  lock is kept, no other call has moved, and a driver more is counted if and only if a session was made.
\<close>

theorem base_handle_is_run:
  fixes cs :: "('conn, 'sess, ('ext, 'nb) response, 'x) cstate"
  assumes "base_handle B (reqs t) s = (r, s')" and "uri_authority (request_uri (reqs t)) = Some a"
    and "t < length (c_tasks cs)" and "c_tasks cs ! t = Start a"
    and "worker_free workers cs" and "c_guard cs (shard a) = None" and "c_pool cs = pool s" and "t \<notin> drops"
  shows "(live_step shard workers drops B reqs t)\<^sup>*\<^sup>* (cs, world s) (cs', w') \<and> (\<exists>q. c_tasks cs' ! t = Finished q) \<longleftrightarrow>
    cs' = cs\<lparr>c_tasks := (c_tasks cs)[t := Finished r], c_pool := pool s',
             c_drivers := c_drivers cs @ (case pool s a of Some _ \<Rightarrow> [] | None \<Rightarrow> (case pool s' a of Some sess \<Rightarrow> [sess] | None \<Rightarrow> []))\<rparr> \<and>
    w' = world s'"
proof -
  let ?final = "(after_handle t a r (pool s') cs, world s')"
  have run: "(live_step shard workers drops B reqs t)\<^sup>*\<^sup>* (cs, world s) ?final"
    using assms(1-7) by (rule handle_runs)
  have over: "c_tasks (fst ?final) ! t = Finished r" using assms(3) by (simp add: after_handle_def)
  have "(cs', w') = ?final"
    if "(live_step shard workers drops B reqs t)\<^sup>*\<^sup>* (cs, world s) (cs', w')" "c_tasks cs' ! t = Finished q" for q
  proof (rule det_end_unique [OF _ run that(1)])
    show "live_step shard workers drops B reqs t x y \<Longrightarrow> live_step shard workers drops B reqs t x z \<Longrightarrow> z = y" for x y z
      by (rule live_step_det [OF assms(8)])
    show "\<not> live_step shard workers drops B reqs t ?final u" for u
      by (rule answered_no_step) (use over in simp)
    show "\<not> live_step shard workers drops B reqs t (cs', w') u" for u
      by (rule answered_no_step [OF that(2)])
  qed
  then have "(live_step shard workers drops B reqs t)\<^sup>*\<^sup>* (cs, world s) (cs', w') \<and> (\<exists>q. c_tasks cs' ! t = Finished q) \<longleftrightarrow>
      (cs', w') = ?final"
    using run over by auto
  then show ?thesis
    using assms(7) by (simp add: after_handle_def split: option.split)
qed

definition sample_cstate :: "(string option, string option, (unit, string option) response, nat) cstate" where
  "sample_cstate = init_cstate [''h'', ''k'']"

text \<open>The first call to \<open>h\<close>, while a call to \<open>k\<close> has not started.\<close>

theorem base_handle_is_run_witness:
  "(live_step (\<lambda>_. 0) 1 {} sample_service (\<lambda>_. sample_request (Some ''http'') (Some ''h'')) 0)\<^sup>*\<^sup>* (sample_cstate, [])
     (sample_cstate\<lparr>c_tasks := [Finished (Inr (sample_response (Some ''http''))), Start ''k''],
        c_pool := [''h'' \<mapsto> Some ''http''], c_drivers := [Some ''http'']\<rparr>, [Some ''http''])"
proof -
  have "base_handle sample_service (sample_request (Some ''http'') (Some ''h'')) (sample_state Map.empty) =
      (Inr (sample_response (Some ''http'')), \<lparr>pool = [''h'' \<mapsto> Some ''http''], world = [Some ''http'']\<rparr>)"
    by (simp add: base_handle_def get_session_def sample_defs io_run Let_def)
  note iff = base_handle_is_run [where reqs = "\<lambda>_. sample_request (Some ''http'') (Some ''h'')" and t = 0 and a = "''h''"
      and workers = 1 and cs = sample_cstate and shard = "\<lambda>_. 0" and drops = "{}" and s = "sample_state Map.empty", OF this]
  have "world (sample_state Map.empty) = []" by (simp add: sample_state_def)
  then show ?thesis
    by (rule subst) (rule conjunct1 [OF iffD2 [OF iff]],
      simp_all add: sample_request_def sample_cstate_def init_cstate_def worker_free_def sample_state_def
        fun_upd_def)
qed

end
