(* ===== verification/Hyper.thy ===== *)
theory Hyper
  imports Transport "HOL-Library.Sublist"
begin

text \<open>
  The Hyper application plugin (\<open>navar-hyper/src/lib.rs\<close>): protocol selection, handshake and the
  sending of requests over HTTP/1.1 or HTTP/2.

  The connection machinery of the \<open>hyper\<close> crate is the record \<open>hyper_lib\<close>, a parameter.  The
  HTTP/1.1 sender lives behind an \<open>Arc<Mutex<..>>\<close> that all clones of a session share, so the world
  of a call has a store of mutex contents (\<open>hyper_world\<close>) and the session holds an address.
\<close>

section \<open>Protocol selection\<close>

datatype protocol = Auto | Http1 | Http2

record hyper_app =
  ha_protocol :: protocol

definition default_protocol :: protocol where
  "default_protocol = Auto"

definition hyper_app_new :: hyper_app where
  "hyper_app_new = \<lparr>ha_protocol = default_protocol\<rparr>"

definition with_protocol :: "protocol \<Rightarrow> hyper_app \<Rightarrow> hyper_app" where
  "with_protocol p app = app\<lparr>ha_protocol := p\<rparr>"

definition h2_name :: "byte list" where
  "h2_name = [0x68, 0x32]"

fun use_h2 :: "protocol \<Rightarrow> byte list option \<Rightarrow> bool" where
  "use_h2 Http2 alpn = True"
| "use_h2 Http1 alpn = False"
| "use_h2 Auto (Some name) = (name = h2_name)"
| "use_h2 Auto None = False"

section \<open>Sessions\<close>

record ('io, 's1, 'c1, 's2, 'c2, 'req, 'resp, 'w, 'x) hyper_lib =
  hy_h1_handshake :: "'io \<Rightarrow> 'w \<Rightarrow> ('x + 's1 \<times> 'c1) \<times> 'w"
  hy_h2_handshake :: "'io \<Rightarrow> 'w \<Rightarrow> ('x + 's2 \<times> 'c2) \<times> 'w"
  hy_h1_ready :: "'s1 \<Rightarrow> 'w \<Rightarrow> ('x + unit) \<times> 's1 \<times> 'w"
  hy_h1_send :: "'req \<Rightarrow> 's1 \<Rightarrow> 'w \<Rightarrow> ('x + 'resp) \<times> 's1 \<times> 'w"
  hy_h2_ready :: "'s2 \<Rightarrow> 'w \<Rightarrow> ('x + unit) \<times> 's2 \<times> 'w"
  hy_h2_send :: "'req \<Rightarrow> 's2 \<Rightarrow> 'w \<Rightarrow> ('x + 'resp) \<times> 's2 \<times> 'w"
  hy_h1_run :: "'c1 \<Rightarrow> 'w \<Rightarrow> ('x + unit) \<times> 'w"
  hy_h2_run :: "'c2 \<Rightarrow> 'w \<Rightarrow> ('x + unit) \<times> 'w"
  hy_debug :: "'x \<Rightarrow> string"

text \<open>\<open>hw_mutex\<close> gives the content of the mutex at an address, \<open>hw_next\<close> is the next free address.\<close>

record ('s1, 'w) hyper_world =
  hw_mutex :: "nat \<Rightarrow> 's1"
  hw_next :: nat
  hw_world :: 'w

datatype 's2 hyper_sender = H1 nat | H2 's2

definition hyper_on_world :: "('w, 'x, 'a) io \<Rightarrow> (('s1, 'w) hyper_world, 'x, 'a) io" where
  "hyper_on_world m hw = (case m (hw_world hw) of (r, w) \<Rightarrow> (r, hw\<lparr>hw_world := w\<rparr>))"

declare hyper_on_world_def [io_run]

text \<open>\<open>convert_body\<close> is the normalization of bodies; \<open>kit\<close> are the adapters of \<open>http_body_util\<close>.\<close>

definition convert_body :: "('b, 'b1, 'b2, 'nb, 'd, 'nd, 'e, 'x) body_kit \<Rightarrow> 'b \<Rightarrow> 'nb" where
  "convert_body kit body =
     kit_boxed kit (kit_map_err kit (kit_into kit) (kit_map_frame kit (map_data (kit_box_data kit)) body))"

definition hyper_send_request ::
  "('io, 's1, 'c1, 's2, 'c2, ('ext, 'nb) request, 'resp, 'w, 'x) hyper_lib \<Rightarrow>
   ('b, 'b1, 'b2, 'nb, 'd, 'nd, 'e, 'x) body_kit \<Rightarrow> ('ext, 'b) request \<Rightarrow> 's2 hyper_sender \<Rightarrow>
   (('s1, 'w) hyper_world, 'x, 'resp \<times> 's2 hyper_sender) io" where
  "hyper_send_request L kit request self hw =
     (let boxed_body = convert_body kit (rq_body request);
          req = \<lparr>rq_parts = rq_parts request, rq_body = boxed_body\<rparr> in
      case self of
        H1 a \<Rightarrow>
          (case hy_h1_ready L (hw_mutex hw a) (hw_world hw) of
             (Inl e, s, w) \<Rightarrow> (Inl (Foreign e), hw\<lparr>hw_mutex := (hw_mutex hw)(a := s), hw_world := w\<rparr>)
           | (Inr _, s, w) \<Rightarrow>
               (case hy_h1_send L req s w of
                  (r, s, w) \<Rightarrow>
                    (map_sum Foreign (\<lambda>resp. (resp, H1 a)) r,
                     hw\<lparr>hw_mutex := (hw_mutex hw)(a := s), hw_world := w\<rparr>)))
      | H2 sender \<Rightarrow>
          (case hy_h2_ready L sender (hw_world hw) of
             (Inl e, s, w) \<Rightarrow> (Inl (Foreign e), hw\<lparr>hw_world := w\<rparr>)
           | (Inr _, s, w) \<Rightarrow>
               (case hy_h2_send L req s w of
                  (r, s, w) \<Rightarrow> (map_sum Foreign (\<lambda>resp. (resp, H2 s)) r, hw\<lparr>hw_world := w\<rparr>))))"

definition hyper_session ::
  "('io, 's1, 'c1, 's2, 'c2, ('ext, 'nb) request, 'resp, 'w, 'x) hyper_lib \<Rightarrow>
   ('b, 'b1, 'b2, 'nb, 'd, 'nd, 'e, 'x) body_kit \<Rightarrow>
   ('s2 hyper_sender, ('ext, 'b) request, 'resp, ('s1, 'w) hyper_world, 'x) session" where
  "hyper_session L kit = \<lparr>send_request = hyper_send_request L kit\<rparr>"

section \<open>The handshake\<close>

datatype ('c1, 'c2) hyper_driver = H1Driver 'c1 | H2Driver 'c2

text \<open>What the driver futures do when they are run; \<open>eprintln\<close> writes a line to standard error.\<close>

fun hyper_driver_run ::
  "('io, 's1, 'c1, 's2, 'c2, 'req, 'resp, 'w, 'x) hyper_lib \<Rightarrow> (string \<Rightarrow> 'w \<Rightarrow> 'w) \<Rightarrow>
   ('c1, 'c2) hyper_driver \<Rightarrow> 'w \<Rightarrow> 'w" where
  "hyper_driver_run L eprintln (H2Driver conn) w =
     (case hy_h2_run L conn w of
        (Inl e, w') \<Rightarrow> eprintln (''Hyper HTTP/2 connection error: '' @ hy_debug L e) w'
      | (Inr _, w') \<Rightarrow> w')"
| "hyper_driver_run L eprintln (H1Driver conn) w =
     (case hy_h1_run L conn w of
        (Inl e, w') \<Rightarrow> eprintln (''Hyper HTTP/1.1 connection error: '' @ hy_debug L e) w'
      | (Inr _, w') \<Rightarrow> w')"

definition prepare_io :: "('compat \<Rightarrow> 'io) \<Rightarrow> ('bidi \<Rightarrow> 'compat) \<Rightarrow> 'bidi \<Rightarrow> 'io" where
  "prepare_io tokio_io to_compat io = tokio_io (to_compat io)"

definition hyper_handshake ::
  "('io, 's1, 'c1, 's2, 'c2, 'req, 'resp, 'w, 'x) hyper_lib \<Rightarrow> ('bidi \<Rightarrow> 'io) \<Rightarrow>
   ('conn, 'bidi, 'send, 'recv, 'w, 'x) connection \<Rightarrow> ('bidi, 'send, 'recv) bidi_stream \<Rightarrow>
   hyper_app \<Rightarrow> 'conn \<Rightarrow> (('s1, 'w) hyper_world, 'x, 's2 hyper_sender \<times> ('c1, 'c2) hyper_driver) io" where
  "hyper_handshake L prepare K S app conn =
     io_bind (hyper_on_world (open_bidirectional K conn)) (\<lambda>io hw.
       let alpn = bidi_alpn_protocol S io;
           h2 = use_h2 (ha_protocol app) alpn;
           hyper_io = prepare io in
       if h2 then
         (case hy_h2_handshake L hyper_io (hw_world hw) of
            (Inl e, w) \<Rightarrow> (Inl (Foreign e), hw\<lparr>hw_world := w\<rparr>)
          | (Inr (sender, conn), w) \<Rightarrow> (Inr (H2 sender, H2Driver conn), hw\<lparr>hw_world := w\<rparr>))
       else
         (case hy_h1_handshake L hyper_io (hw_world hw) of
            (Inl e, w) \<Rightarrow> (Inl (Foreign e), hw\<lparr>hw_world := w\<rparr>)
          | (Inr (sender, conn), w) \<Rightarrow>
              (Inr (H1 (hw_next hw), H1Driver conn),
               hw\<lparr>hw_mutex := (hw_mutex hw)(hw_next hw := sender), hw_next := Suc (hw_next hw),
                  hw_world := w\<rparr>)))"

definition hyper_application ::
  "('io, 's1, 'c1, 's2, 'c2, 'req, 'resp, 'w, 'x) hyper_lib \<Rightarrow> ('bidi \<Rightarrow> 'io) \<Rightarrow>
   ('conn, 'bidi, 'send, 'recv, 'w, 'x) connection \<Rightarrow> ('bidi, 'send, 'recv) bidi_stream \<Rightarrow>
   hyper_app \<Rightarrow>
   ('conn, 's2 hyper_sender, ('c1, 'c2) hyper_driver, ('s1, 'w) hyper_world, 'x) application_plugin" where
  "hyper_application L prepare K S app = \<lparr>handshake = hyper_handshake L prepare K S app\<rparr>"

lemma hyper_handshake_opened:
  "open_bidirectional K conn (hw_world hw) = (Inr io, w1) \<Longrightarrow>
   hyper_handshake L prepare K S app conn hw =
     (if use_h2 (ha_protocol app) (bidi_alpn_protocol S io) then
        (case hy_h2_handshake L (prepare io) w1 of
           (Inl e, w) \<Rightarrow> (Inl (Foreign e), hw\<lparr>hw_world := w\<rparr>)
         | (Inr (sender, c), w) \<Rightarrow> (Inr (H2 sender, H2Driver c), hw\<lparr>hw_world := w\<rparr>))
      else
        (case hy_h1_handshake L (prepare io) w1 of
           (Inl e, w) \<Rightarrow> (Inl (Foreign e), hw\<lparr>hw_world := w\<rparr>)
         | (Inr (sender, c), w) \<Rightarrow>
             (Inr (H1 (hw_next hw), H1Driver c),
              hw\<lparr>hw_mutex := (hw_mutex hw)(hw_next hw := sender), hw_next := Suc (hw_next hw),
                 hw_world := w\<rparr>)))"
  by (simp add: hyper_handshake_def io_run Let_def split: prod.split sum.split)

lemma use_h2_iff: "use_h2 p alpn \<longleftrightarrow> p = Http2 \<or> p = Auto \<and> alpn = Some h2_name"
  by (cases "(p, alpn)" rule: use_h2.cases) auto

text \<open>
  A handshake that succeeds speaks HTTP/2 exactly when HTTP/2 is forced, or the choice is
  automatic and the opened stream reports the ALPN protocol \<open>h2\<close>; the driver is the one of the
  same protocol, and an HTTP/1.1 sender gets a mutex of its own that no other session shares.
\<close>

theorem hyper_protocol_selection:
  assumes "open_bidirectional K conn (hw_world hw) = (Inr io, w1)"
    and "hyper_handshake L prepare K S app conn hw = (Inr (sender, driver), hw')"
  shows "((\<exists>s2 c2. sender = H2 s2 \<and> driver = H2Driver c2) \<longleftrightarrow>
      ha_protocol app = Http2 \<or> ha_protocol app = Auto \<and> bidi_alpn_protocol S io = Some h2_name) \<and>
    ((\<exists>s2 c2. sender = H2 s2 \<and> driver = H2Driver c2) \<or>
     (\<exists>c1. sender = H1 (hw_next hw) \<and> driver = H1Driver c1 \<and> hw_next hw' = Suc (hw_next hw) \<and>
        (\<exists>s1. hw_mutex hw' = (hw_mutex hw)(hw_next hw := s1))))"
  using assms(2) unfolding hyper_handshake_opened [OF assms(1)] use_h2_iff
  by (auto split: if_splits prod.splits sum.splits)

type_synonym 'w sample_hyper =
  "(nat, nat, nat, nat, nat, (unit, (byte list list, nat error) outcome list) request,
    nat, 'w, nat) hyper_lib"

definition sample_hyper :: "'w sample_hyper" where
  "sample_hyper =
     \<lparr>hy_h1_handshake = (\<lambda>io w. (Inr (io, io), w)), hy_h2_handshake = (\<lambda>io w. (Inr (io, io), w)),
      hy_h1_ready = (\<lambda>s w. (Inr (), s, w)), hy_h1_send = (\<lambda>r s w. (Inr s, s, w)),
      hy_h2_ready = (\<lambda>s w. (Inr (), s, w)), hy_h2_send = (\<lambda>r s w. (Inr s, s, w)),
      hy_h1_run = (\<lambda>c w. (Inr (), w)), hy_h2_run = (\<lambda>c w. (Inr (), w)), hy_debug = (\<lambda>e. [])\<rparr>"

definition sample_conn :: "byte list option \<Rightarrow> (unit, byte list option, unit, unit, nat, nat) connection" where
  "sample_conn alpn =
     \<lparr>open_bidirectional = (\<lambda>c w. (Inr alpn, w)), open_unidirectional = (\<lambda>c w. (Inl (Foreign 0), w)),
      accept_bidirectional = (\<lambda>c w. (Inl (Foreign 0), w)), accept_unidirectional = (\<lambda>c w. (Inl (Foreign 0), w)),
      conn_alpn_protocol = default_alpn_protocol\<rparr>"

definition sample_stream :: "(byte list option, unit, unit) bidi_stream" where
  "sample_stream = \<lparr>stream_id = (\<lambda>_. 0), bidi_split = (\<lambda>_. ((), ())), bidi_alpn_protocol = (\<lambda>s. s)\<rparr>"

theorem hyper_protocol_selection_witness:
  "\<exists>sender driver hw'. hyper_handshake sample_hyper (\<lambda>_. 7) (sample_conn (Some h2_name)) sample_stream
       hyper_app_new () \<lparr>hw_mutex = (\<lambda>_. 0), hw_next = 0, hw_world = 0\<rparr> = (Inr (sender, driver), hw') \<and>
     (\<exists>s2 c2. sender = H2 s2 \<and> driver = H2Driver c2)"
proof -
  let ?hw = "\<lparr>hw_mutex = (\<lambda>_. 0), hw_next = 0, hw_world = 0\<rparr> :: (nat, nat) hyper_world"
  have open_ok: "open_bidirectional (sample_conn (Some h2_name)) () (hw_world ?hw) = (Inr (Some h2_name), 0)"
    by (simp add: sample_conn_def)
  have run: "hyper_handshake sample_hyper (\<lambda>_. 7) (sample_conn (Some h2_name)) sample_stream
      hyper_app_new () ?hw = (Inr (H2 7, H2Driver 7), ?hw)"
    unfolding hyper_handshake_opened [OF open_ok]
    by (simp add: sample_hyper_def sample_stream_def hyper_app_new_def default_protocol_def)
  have "ha_protocol hyper_app_new = Auto \<and> bidi_alpn_protocol sample_stream (Some h2_name) = Some h2_name"
    by (simp add: sample_stream_def hyper_app_new_def default_protocol_def)
  with hyper_protocol_selection [OF open_ok run] run show ?thesis by blast
qed

section \<open>Concurrent requests on an HTTP/1.1 session\<close>

text \<open>
  The calls of \<open>send_request\<close> on clones of one HTTP/1.1 session.  \<open>sender.lock().await\<close> of Tokio's
  mutex suspends a call without blocking its thread and serves the waiting calls in the order in
  which they came; the guard lives until the call has its response, fails, or is dropped.  Only the calls
  in \<open>drops\<close> may be dropped.
  \<open>m_order\<close> and \<open>m_sent\<close> record in which order calls asked for the lock and in which order their
  requests were handed to hyper.
\<close>

datatype ('resp, 'x) h1_phase =
    H1Start
  | H1Waiting
  | H1Readying
  | H1Sending
  | H1Done "'x error + 'resp"
  | H1Dropped

record ('resp, 'x) h1_state =
  m_tasks :: "('resp, 'x) h1_phase list"
  m_holder :: "nat option"
  m_queue :: "nat list"
  m_order :: "nat list"
  m_sent :: "nat list"

text \<open>The guard is dropped: the first waiting call gets the lock.\<close>

definition h1_unlock :: "('resp, 'x) h1_state \<Rightarrow> ('resp, 'x) h1_state" where
  "h1_unlock s =
     (case m_queue s of
        [] \<Rightarrow> s\<lparr>m_holder := None\<rparr>
      | u # q \<Rightarrow> s\<lparr>m_holder := Some u, m_queue := q, m_tasks := (m_tasks s)[u := H1Readying]\<rparr>)"

definition h1_set :: "nat \<Rightarrow> ('resp, 'x) h1_phase \<Rightarrow> ('resp, 'x) h1_state \<Rightarrow> ('resp, 'x) h1_state" where
  "h1_set t p s = s\<lparr>m_tasks := (m_tasks s)[t := p]\<rparr>"

inductive h1_step :: "nat set \<Rightarrow> ('resp, 'x) h1_state \<Rightarrow> ('resp, 'x) h1_state \<Rightarrow> bool"
  for drops where
  lock_free: "t < length (m_tasks s) \<Longrightarrow> m_tasks s ! t = H1Start \<Longrightarrow> m_holder s = None \<Longrightarrow>
     h1_step drops s (h1_set t H1Readying (s\<lparr>m_holder := Some t, m_order := m_order s @ [t]\<rparr>))"
| lock_wait: "t < length (m_tasks s) \<Longrightarrow> m_tasks s ! t = H1Start \<Longrightarrow> m_holder s \<noteq> None \<Longrightarrow>
     h1_step drops s (h1_set t H1Waiting (s\<lparr>m_queue := m_queue s @ [t], m_order := m_order s @ [t]\<rparr>))"
| ready_ok: "t < length (m_tasks s) \<Longrightarrow> m_tasks s ! t = H1Readying \<Longrightarrow>
     h1_step drops s (h1_set t H1Sending (s\<lparr>m_sent := m_sent s @ [t]\<rparr>))"
| ready_err: "t < length (m_tasks s) \<Longrightarrow> m_tasks s ! t = H1Readying \<Longrightarrow>
     h1_step drops s (h1_unlock (h1_set t (H1Done (Inl e)) s))"
| respond: "t < length (m_tasks s) \<Longrightarrow> m_tasks s ! t = H1Sending \<Longrightarrow>
     h1_step drops s (h1_unlock (h1_set t (H1Done r) s))"
| drop_start: "t < length (m_tasks s) \<Longrightarrow> t \<in> drops \<Longrightarrow> m_tasks s ! t = H1Start \<Longrightarrow>
     h1_step drops s (h1_set t H1Dropped s)"
| drop_waiting: "t < length (m_tasks s) \<Longrightarrow> t \<in> drops \<Longrightarrow> m_tasks s ! t = H1Waiting \<Longrightarrow>
     h1_step drops s (h1_set t H1Dropped (s\<lparr>m_queue := removeAll t (m_queue s)\<rparr>))"
| drop_holding: "t < length (m_tasks s) \<Longrightarrow> t \<in> drops \<Longrightarrow> m_tasks s ! t \<in> {H1Readying, H1Sending} \<Longrightarrow>
     h1_step drops s (h1_unlock (h1_set t H1Dropped s))"

definition h1_init :: "nat \<Rightarrow> ('resp, 'x) h1_state" where
  "h1_init n = \<lparr>m_tasks = replicate n H1Start, m_holder = None, m_queue = [], m_order = [], m_sent = []\<rparr>"

inductive h1_reachable :: "nat set \<Rightarrow> nat \<Rightarrow> ('resp, 'x) h1_state \<Rightarrow> bool" for drops n where
  h1_reach_init: "h1_reachable drops n (h1_init n)"
| h1_reach_step: "h1_reachable drops n s \<Longrightarrow> h1_step drops s s' \<Longrightarrow> h1_reachable drops n s'"

fun h1_holds :: "('resp, 'x) h1_phase \<Rightarrow> bool" where
  "h1_holds H1Readying = True"
| "h1_holds H1Sending = True"
| "h1_holds _ = False"

text \<open>The calls that have asked for the lock and not yet handed over their request.\<close>

definition h1_pending :: "('resp, 'x) h1_state \<Rightarrow> nat list" where
  "h1_pending s =
     (case m_holder s of Some h \<Rightarrow> if m_tasks s ! h = H1Readying then [h] else [] | None \<Rightarrow> []) @ m_queue s"

definition h1_inv :: "('resp, 'x) h1_state \<Rightarrow> bool" where
  "h1_inv s \<longleftrightarrow>
     (\<forall>t < length (m_tasks s). h1_holds (m_tasks s ! t) \<longleftrightarrow> m_holder s = Some t) \<and>
     (\<forall>h. m_holder s = Some h \<longrightarrow> h < length (m_tasks s)) \<and>
     (m_holder s = None \<longrightarrow> m_queue s = []) \<and> distinct (m_queue s) \<and>
     (\<forall>t. t \<in> set (m_queue s) \<longleftrightarrow> t < length (m_tasks s) \<and> m_tasks s ! t = H1Waiting) \<and>
     subseq (m_sent s @ h1_pending s) (m_order s)"

lemma h1_set_simps [simp]:
  "m_tasks (h1_set t p s) = (m_tasks s)[t := p]" "m_holder (h1_set t p s) = m_holder s"
  "m_queue (h1_set t p s) = m_queue s" "m_order (h1_set t p s) = m_order s"
  "m_sent (h1_set t p s) = m_sent s"
  by (simp_all add: h1_set_def)

lemma h1_invD:
  assumes "h1_inv s"
  shows "t < length (m_tasks s) \<Longrightarrow> h1_holds (m_tasks s ! t) \<Longrightarrow> m_holder s = Some t"
    and "m_holder s = Some t \<Longrightarrow> t < length (m_tasks s) \<and> h1_holds (m_tasks s ! t)"
    and "m_holder s = None \<Longrightarrow> m_queue s = []" and "distinct (m_queue s)"
    and "t \<in> set (m_queue s) \<longleftrightarrow> t < length (m_tasks s) \<and> m_tasks s ! t = H1Waiting"
    and "subseq (m_sent s @ h1_pending s) (m_order s)"
  using assms unfolding h1_inv_def by blast+

lemma h1_invI:
  assumes "\<And>u. u < length (m_tasks s) \<Longrightarrow> h1_holds (m_tasks s ! u) \<longleftrightarrow> m_holder s = Some u"
    and "\<And>h. m_holder s = Some h \<Longrightarrow> h < length (m_tasks s)"
    and "m_holder s = None \<Longrightarrow> m_queue s = []" and "distinct (m_queue s)"
    and "\<And>u. u \<in> set (m_queue s) \<longleftrightarrow> u < length (m_tasks s) \<and> m_tasks s ! u = H1Waiting"
    and "subseq (m_sent s @ h1_pending s) (m_order s)"
  shows "h1_inv s"
  using assms unfolding h1_inv_def by blast

lemma h1_inv_iff:
  "h1_inv s \<Longrightarrow> u < length (m_tasks s) \<Longrightarrow> h1_holds (m_tasks s ! u) \<longleftrightarrow> m_holder s = Some u"
  by (simp add: h1_inv_def)

lemma h1_inv_init: "h1_inv (h1_init n)"
  by (simp add: h1_inv_def h1_init_def h1_pending_def)

text \<open>Giving up the lock keeps the invariant.\<close>

lemma h1_unlock_inv:
  assumes inv: "h1_inv s" and t: "t < length (m_tasks s)" "h1_holds (m_tasks s ! t)"
    and p: "\<not> h1_holds p" "p \<noteq> H1Waiting"
  shows "h1_inv (h1_unlock (h1_set t p s))"
proof -
  note inv' = h1_invD [OF inv]
  have holder: "m_holder s = Some t" by (rule inv'(1) [OF t])
  have only: "h1_holds (m_tasks s ! u) \<longleftrightarrow> u = t" if "u < length (m_tasks s)" for u
    using inv'(1) [OF that] holder t by auto
  have order: "subseq (m_sent s @ m_queue s) (m_order s)"
  proof -
    have "subseq (m_sent s @ m_queue s) (m_sent s @ h1_pending s)"
      by (simp add: h1_pending_def holder subseq_append' list_emb_Cons)
    then show ?thesis using inv'(6) by (rule subseq_order.trans)
  qed
  show ?thesis
  proof (cases "m_queue s")
    case Nil
    then show ?thesis using only order p t inv'(5)
      by (auto simp: h1_inv_def h1_unlock_def h1_pending_def nth_list_update)
  next
    case (Cons u q)
    then have u: "u < length (m_tasks s)" "m_tasks s ! u = H1Waiting" "u \<noteq> t" "u \<notin> set q" "distinct q"
      using inv'(5) [of u] inv'(4) t by auto
    moreover have "m_tasks s ! t \<noteq> H1Waiting" using t(2) by auto
    moreover have "v \<in> set q \<longleftrightarrow> v < length (m_tasks s) \<and> m_tasks s ! v = H1Waiting \<and> v \<noteq> u" for v
      using inv'(5) [of v] Cons u(4) by auto
    ultimately show ?thesis using only order p t Cons
      by (auto simp: h1_inv_def h1_unlock_def h1_pending_def nth_list_update)
  qed
qed

lemma h1_lock_free_inv:
  assumes inv: "h1_inv s" and t: "t < length (m_tasks s)" and st: "m_tasks s ! t = H1Start" and free: "m_holder s = None"
  shows "h1_inv (h1_set t H1Readying (s\<lparr>m_holder := Some t, m_order := m_order s @ [t]\<rparr>))"
proof -
  note iff = h1_inv_iff [OF inv]
  have q: "m_queue s = []" by (rule h1_invD(3) [OF inv free])
  have ord: "subseq (m_sent s) (m_order s)"
    using h1_invD(6) [OF inv] by (simp add: h1_pending_def free q)
  show ?thesis
    using t st free iff ord q h1_invD(5) [OF inv]
    by (intro h1_invI) (auto simp: h1_pending_def nth_list_update)
qed

lemma h1_lock_wait_inv:
  assumes inv: "h1_inv s" and t: "t < length (m_tasks s)" and st: "m_tasks s ! t = H1Start" and held: "m_holder s \<noteq> None"
  shows "h1_inv (h1_set t H1Waiting (s\<lparr>m_queue := m_queue s @ [t], m_order := m_order s @ [t]\<rparr>))"
proof -
  note iff = h1_inv_iff [OF inv]
  obtain h where h: "m_holder s = Some h" "h < length (m_tasks s)" "h1_holds (m_tasks s ! h)"
    using held h1_invD(2) [OF inv] by blast
  have ht: "h \<noteq> t" using st h(3) by auto
  have tq: "t \<notin> set (m_queue s)" using h1_invD(5) [OF inv] t st held by simp
  have ord: "subseq ((m_sent s @ h1_pending s) @ [t]) (m_order s @ [t])"
    by (rule list_emb_append_mono [OF h1_invD(6) [OF inv] subseq_order.refl])
  show ?thesis
    using t st iff h ht tq ord h1_invD(4,5) [OF inv]
    by (intro h1_invI) (auto simp: h1_pending_def nth_list_update)
qed

lemma h1_ready_inv:
  assumes inv: "h1_inv s" and t: "t < length (m_tasks s)" and st: "m_tasks s ! t = H1Readying"
  shows "h1_inv (h1_set t H1Sending (s\<lparr>m_sent := m_sent s @ [t]\<rparr>))"
proof -
  note iff = h1_inv_iff [OF inv]
  have holder: "m_holder s = Some t" using h1_invD(1) [OF inv] t st by simp
  have ord: "subseq (m_sent s @ t # m_queue s) (m_order s)"
    using h1_invD(6) [OF inv] t st by (simp add: h1_pending_def holder)
  show ?thesis
    using t st iff holder ord h1_invD(4,5) [OF inv]
    by (intro h1_invI) (auto simp: h1_pending_def nth_list_update)
qed

lemma h1_drop_waiting_inv:
  assumes inv: "h1_inv s" and t: "t < length (m_tasks s)" and st: "m_tasks s ! t = H1Waiting"
  shows "h1_inv (h1_set t H1Dropped (s\<lparr>m_queue := removeAll t (m_queue s)\<rparr>))"
proof -
  note iff = h1_inv_iff [OF inv]
  let ?s = "h1_set t H1Dropped (s\<lparr>m_queue := removeAll t (m_queue s)\<rparr>)"
  obtain h where h: "m_holder s = Some h" "h < length (m_tasks s)" "h1_holds (m_tasks s ! h)"
    using t st h1_invD(2,3,5) [OF inv] by (metis empty_iff list.set(1) option.exhaust)
  have ht: "h \<noteq> t" using st h(3) by auto
  have "subseq (m_sent s @ h1_pending ?s) (m_sent s @ h1_pending s)"
    using h ht by (simp add: h1_pending_def subseq_append' removeAll_filter_not_eq)
  then have ord: "subseq (m_sent s @ h1_pending ?s) (m_order s)"
    using h1_invD(6) [OF inv] by (rule subseq_order.trans)
  show ?thesis
    using t st iff h ht ord h1_invD(4,5) [OF inv]
    by (intro h1_invI) (auto simp: nth_list_update distinct_removeAll)
qed

lemma h1_step_inv: "h1_step drops s s' \<Longrightarrow> h1_inv s \<Longrightarrow> h1_inv s'"
proof (induction rule: h1_step.induct)
  case (lock_free t s)
  then show ?case by (intro h1_lock_free_inv)
next
  case (lock_wait t s)
  then show ?case by (intro h1_lock_wait_inv)
next
  case (ready_ok t s)
  then show ?case by (intro h1_ready_inv)
next
  case (ready_err t s e)
  then show ?case by (auto intro: h1_unlock_inv)
next
  case (respond t s r)
  then show ?case by (auto intro: h1_unlock_inv)
next
  case (drop_start t s)
  note inv = drop_start.prems and iff = h1_inv_iff [OF drop_start.prems]
  have "h1_pending (h1_set t H1Dropped s) = h1_pending s"
    using drop_start.hyps by (auto simp: h1_pending_def nth_list_update split: option.split)
  moreover have "m_holder s \<noteq> Some t" using iff [of t] drop_start.hyps by auto
  ultimately show ?case
    using drop_start.hyps iff h1_invD(2-6) [OF inv]
    by (intro h1_invI) (auto simp: nth_list_update)
next
  case (drop_waiting t s)
  then show ?case by (intro h1_drop_waiting_inv)
next
  case (drop_holding t s)
  then show ?case by (auto intro!: h1_unlock_inv)
qed

lemma h1_reachable_inv: "h1_reachable drops n s \<Longrightarrow> h1_inv s"
  by (induction rule: h1_reachable.induct) (auto intro: h1_inv_init h1_step_inv)

lemma h1_step_length: "h1_step drops s s' \<Longrightarrow> length (m_tasks s') = length (m_tasks s)"
  by (induction rule: h1_step.induct) (auto simp: h1_unlock_def split: list.split)

lemma h1_reachable_length: "h1_reachable drops n s \<Longrightarrow> length (m_tasks s) = n"
  by (induction rule: h1_reachable.induct) (simp_all add: h1_init_def h1_step_length)

text \<open>Every step brings a call nearer to its end.\<close>

fun h1_rank :: "('resp, 'x) h1_phase \<Rightarrow> nat" where
  "h1_rank H1Start = 4"
| "h1_rank H1Waiting = 3"
| "h1_rank H1Readying = 2"
| "h1_rank H1Sending = 1"
| "h1_rank _ = 0"

definition h1_total :: "('resp, 'x) h1_state \<Rightarrow> nat" where
  "h1_total s = sum_list (map h1_rank (m_tasks s))"

lemma h1_rank_holds: "h1_holds p \<Longrightarrow> 0 < h1_rank p"
  by (cases p) auto

lemma h1_set_rank:
  "t < length (m_tasks s) \<Longrightarrow> h1_rank p < h1_rank (m_tasks s ! t) \<Longrightarrow> h1_total (h1_set t p s) < h1_total s"
  by (simp add: h1_total_def sum_list_update_less)

lemma h1_unlock_rank:
  assumes "h1_inv s" and "t < length (m_tasks s)" and "h1_holds (m_tasks s ! t)" and "h1_rank p = 0"
  shows "h1_total (h1_unlock (h1_set t p s)) < h1_total s"
proof -
  have less: "h1_total (h1_set t p s) < h1_total s"
    using assms by (intro h1_set_rank) (simp_all add: h1_rank_holds)
  show ?thesis
  proof (cases "m_queue s")
    case Nil
    then show ?thesis using less by (simp add: h1_unlock_def h1_total_def)
  next
    case (Cons u q)
    then have u: "u < length (m_tasks s)" "m_tasks s ! u = H1Waiting"
      using h1_invD(5) [OF assms(1), of u] by auto
    with assms(3) have "u \<noteq> t" by auto
    with u have "h1_total (h1_unlock (h1_set t p s)) < h1_total (h1_set t p s)"
      using sum_list_update_less [of u "(m_tasks s)[t := p]" h1_rank H1Readying] Cons
      by (simp add: h1_unlock_def h1_total_def)
    with less show ?thesis by simp
  qed
qed

lemma h1_step_rank: "h1_step drops s s' \<Longrightarrow> h1_inv s \<Longrightarrow> h1_total s' < h1_total s"
proof (induction rule: h1_step.induct)
  case (ready_err t s e)
  then show ?case by (intro h1_unlock_rank) auto
next
  case (respond t s r)
  then show ?case by (intro h1_unlock_rank) auto
next
  case (drop_holding t s)
  then show ?case by (intro h1_unlock_rank) auto
qed (auto simp: h1_total_def intro!: sum_list_update_less)

fun h1_over :: "('resp, 'x) h1_phase \<Rightarrow> bool" where
  "h1_over (H1Done r) = True"
| "h1_over H1Dropped = True"
| "h1_over _ = False"

lemma h1_unlock_dropped:
  "m_tasks (h1_unlock s) ! t = H1Dropped \<Longrightarrow> t < length (m_tasks s) \<Longrightarrow> m_tasks s ! t = H1Dropped"
proof (cases "m_queue s")
  case (Cons u q)
  assume "m_tasks (h1_unlock s) ! t = H1Dropped" "t < length (m_tasks s)"
  then show ?thesis using Cons by (cases "u = t") (auto simp: h1_unlock_def)
qed (simp add: h1_unlock_def)

lemma h1_unlock_length: "length (m_tasks (h1_unlock s)) = length (m_tasks s)"
  by (simp add: h1_unlock_def split: list.split)

lemma h1_dropped_only:
  "h1_reachable drops n s \<Longrightarrow> t < length (m_tasks s) \<Longrightarrow> m_tasks s ! t = H1Dropped \<Longrightarrow> t \<in> drops"
proof (induction rule: h1_reachable.induct)
  case (h1_reach_step s s')
  from h1_reach_step.hyps(2) h1_reach_step.prems h1_reach_step.IH show ?case
    by (induction rule: h1_step.induct)
      (auto simp: nth_list_update h1_unlock_length dest!: h1_unlock_dropped split: if_splits)
qed (simp add: h1_init_def)

lemma h1_unlock_keeps:
  assumes "h1_inv s" and "t < length (m_tasks s)" and "h1_holds (m_tasks s ! t)"
  shows "m_tasks (h1_unlock (h1_set t p s)) ! t = p"
proof (cases "m_queue s")
  case (Cons u q)
  then have "m_tasks s ! u = H1Waiting" using h1_invD(5) [OF assms(1), of u] by simp
  with assms(3) have "u \<noteq> t" by auto
  then show ?thesis using Cons assms(2) by (simp add: h1_unlock_def)
qed (use assms(2) in \<open>simp add: h1_unlock_def\<close>)

text \<open>Either the lock is free and a call can take it, or the call that has it can end.\<close>

lemma h1_progress_cases:
  assumes inv: "h1_inv s" and t: "t < length (m_tasks s)" "\<not> h1_over (m_tasks s ! t)"
  obtains (take) "m_holder s = None" and "m_tasks s ! t = H1Start"
    | (answer) h r where "h < length (m_tasks s)" and "h1_holds (m_tasks s ! h)"
        and "\<And>drops. h1_step drops s (h1_unlock (h1_set h (H1Done r) s))"
proof (cases "m_holder s")
  case None
  then have "\<not> h1_holds (m_tasks s ! t)" "m_tasks s ! t \<noteq> H1Waiting"
    using h1_inv_iff [OF inv t(1)] h1_invD(3,5) [OF inv] t(1) by auto
  then have "m_tasks s ! t = H1Start" using t(2) by (cases "m_tasks s ! t") auto
  with None show ?thesis by (rule that(1))
next
  case (Some h)
  then have h: "h < length (m_tasks s)" "h1_holds (m_tasks s ! h)" using h1_invD(2) [OF inv] by auto
  then show ?thesis
    using that(2) [OF h ready_err [OF h(1)]] that(2) [OF h h1_step.respond [OF h(1)]]
    by (cases "m_tasks s ! h") auto
qed

lemma h1_progress:
  assumes "h1_inv s" and "t < length (m_tasks s)" and "\<not> h1_over (m_tasks s ! t)"
  shows "\<exists>s'. h1_step drops s s'"
  using assms by (cases rule: h1_progress_cases) (use lock_free [OF assms(2)] in blast)+

text \<open>
  C10: However many calls use clones of one HTTP/1.1 session, and whichever of them fail or are
  dropped half way, at most one call awaits its response at a time, and requests are handed
  to hyper in the order in which their calls asked for the session; a call that waits always
  waits for one that holds the session and can go on, so no wake-up is lost.
\<close>

theorem h1_requests_serialized:
  assumes "h1_reachable drops n s"
  shows "card {t. t < length (m_tasks s) \<and> m_tasks s ! t = H1Sending} \<le> 1 \<and>
    subseq (m_sent s) (m_order s) \<and>
    (\<forall>t < length (m_tasks s). m_tasks s ! t = H1Waiting \<longrightarrow>
       (\<exists>h < length (m_tasks s). m_holder s = Some h \<and> m_tasks s ! h \<in> {H1Readying, H1Sending}))"
proof -
  note inv = h1_reachable_inv [OF assms]
  have "{t. t < length (m_tasks s) \<and> m_tasks s ! t = H1Sending} \<subseteq> {h. m_holder s = Some h}"
    using h1_invD(1) [OF inv] by auto
  then have "{t. t < length (m_tasks s) \<and> m_tasks s ! t = H1Sending} \<subseteq> {the (m_holder s)}"
    by auto
  from card_mono [OF _ this] have "card {t. t < length (m_tasks s) \<and> m_tasks s ! t = H1Sending} \<le> 1"
    by simp
  moreover have "subseq (m_sent s) (m_order s)"
    by (rule subseq_order.trans [OF prefix_imp_subseq [OF prefixI [OF refl]] h1_invD(6) [OF inv]])
  moreover have "\<exists>h < length (m_tasks s). m_holder s = Some h \<and> m_tasks s ! h \<in> {H1Readying, H1Sending}"
    if t: "t < length (m_tasks s)" "m_tasks s ! t = H1Waiting" for t
  proof -
    have "m_queue s \<noteq> []" using h1_invD(5) [OF inv, of t] t by auto
    then obtain h where h: "m_holder s = Some h" using h1_invD(3) [OF inv] by blast
    have "h1_holds p \<Longrightarrow> p \<in> {H1Readying, H1Sending}" for p :: "('a, 'b) h1_phase" by (cases p) auto
    with h1_invD(2) [OF inv h] h show ?thesis by blast
  qed
  ultimately show ?thesis by blast
qed

text \<open>
  The calls on an HTTP/1.1 session never block each other for good: every step lowers a measure, and
  in a reachable state where no step is possible every call has its response or its error, or is one of
  the calls that were given up; so if hyper answers what it is handed, every call that is kept comes to an
  end.
\<close>

theorem h1_calls_end:
  assumes "h1_reachable drops n s"
  shows "(\<forall>s'. h1_step drops s s' \<longrightarrow> h1_total s' < h1_total s) \<and>
    ((\<nexists>s'. h1_step drops s s') \<longrightarrow>
       (\<forall>t < n. (\<exists>r. m_tasks s ! t = H1Done r) \<or> t \<in> drops \<and> m_tasks s ! t = H1Dropped))"
proof (intro conjI allI impI)
  show "h1_total s' < h1_total s" if "h1_step drops s s'" for s'
    by (rule h1_step_rank [OF that h1_reachable_inv [OF assms]])
  fix t assume stuck: "\<nexists>s'. h1_step drops s s'" and "t < n"
  then have t: "t < length (m_tasks s)" by (simp add: h1_reachable_length [OF assms])
  have "h1_over (m_tasks s ! t)"
    using h1_progress [OF h1_reachable_inv [OF assms] t] stuck by blast
  then show "(\<exists>r. m_tasks s ! t = H1Done r) \<or> t \<in> drops \<and> m_tasks s ! t = H1Dropped"
    using h1_dropped_only [OF assms t] by (cases "m_tasks s ! t") auto
qed

text \<open>Two calls: the first has sent its request, the second waits.\<close>

definition h1_sample :: "(nat, nat) h1_state" where
  "h1_sample = \<lparr>m_tasks = [H1Sending, H1Waiting], m_holder = Some 0, m_queue = [1], m_order = [0, 1], m_sent = [0]\<rparr>"

lemma h1_sample_reachable: "h1_reachable {} 2 h1_sample"
proof -
  let ?i = "h1_init 2 :: (nat, nat) h1_state"
  let ?a = "h1_set 0 H1Readying (?i\<lparr>m_holder := Some 0, m_order := m_order ?i @ [0]\<rparr>)"
  let ?b = "h1_set 1 H1Waiting (?a\<lparr>m_queue := m_queue ?a @ [1], m_order := m_order ?a @ [1]\<rparr>)"
  let ?c = "h1_set 0 H1Sending (?b\<lparr>m_sent := m_sent ?b @ [0]\<rparr>)"
  have a: "h1_step {} ?i ?a" by (rule lock_free) (simp_all add: h1_init_def)
  have b: "h1_step {} ?a ?b" by (rule lock_wait) (simp_all add: h1_init_def)
  have c: "h1_step {} ?b ?c" by (rule ready_ok) (simp_all add: h1_init_def numeral_2_eq_2)
  note h1_reach_step [OF h1_reach_step [OF h1_reach_step [OF h1_reach_init a] b] c]
  moreover have "?c = h1_sample"
    by (simp add: h1_sample_def h1_init_def h1_set_def numeral_2_eq_2)
  ultimately show ?thesis by simp
qed

theorem h1_requests_serialized_witness:
  "card {t. t < 2 \<and> [H1Sending, H1Waiting :: (nat, nat) h1_phase] ! t = H1Sending} \<le> 1 \<and>
   subseq [0] [0, 1 :: nat]"
  using h1_requests_serialized [OF h1_sample_reachable] by (simp add: h1_sample_def numeral_2_eq_2)

theorem h1_calls_end_witness:
  "\<exists>s' :: (nat, nat) h1_state. h1_step {} h1_sample s' \<and> h1_total s' < h1_total h1_sample"
proof -
  have "h1_step {} h1_sample (h1_unlock (h1_set 0 (H1Done (Inr 5)) h1_sample))"
    by (rule h1_step.respond) (simp_all add: h1_sample_def)
  then show ?thesis using h1_calls_end [OF h1_sample_reachable] by blast
qed

end
