(* ===== verification/HyperClient.thy ===== *)
theory HyperClient
  imports PoolConcurrency Hyper
begin

text \<open>
  The concurrent client over Hyper: the calls of \<open>BaseService::handle\<close> (\<open>src/base_service.rs\<close>) with the
  sessions of \<open>navar-hyper/src/lib.rs\<close>, as the product of the pool of \<open>PoolConcurrency\<close> and one mutex of
  \<open>Hyper\<close> for every HTTP/1.1 session.

  A call that has its session is in the phase \<open>Sending\<close> of the pool, and inside
  \<open>session.send_request\<close> in one of the phases of that session's mutex.  The pool and a mutex move
  together when such a call ends, by an answer or because it is dropped.  Awaiting Tokio's mutex
  gives the worker thread back, so a step needs a worker that is not blocked in \<open>pool.entry\<close>.
\<close>

record ('conn, 's2, 'resp, 'x) hyper_client =
  hc_calls :: "('conn, 's2 hyper_sender, 'resp, 'x) cstate"
  hc_mutex :: "nat \<Rightarrow> ('resp, 'x) h1_state"

definition hyper_client_init :: "string list \<Rightarrow> ('conn, 's2, 'resp, 'x) hyper_client" where
  "hyper_client_init auths =
     \<lparr>hc_calls = init_cstate auths, hc_mutex = (\<lambda>m. h1_init (length auths))\<rparr>"

text \<open>
  \<open>Arc::new(Mutex::new(sender))\<close> in the handshake makes a mutex that no session has.  A step of the
  pool alone leaves the calls that are sending where they are.
\<close>

definition new_mutexes_fresh ::
  "('conn, 's2, 'resp, 'x) hyper_client \<Rightarrow> ('conn, 's2 hyper_sender, 'resp, 'x) cstate \<Rightarrow> bool" where
  "new_mutexes_fresh s cs \<longleftrightarrow>
     (\<forall>a m. c_pool cs a = Some (H1 m) \<and> c_pool (hc_calls s) a = None \<longrightarrow> H1 m \<notin> ran (c_pool (hc_calls s)))"

definition sending_kept ::
  "('conn, 's2, 'resp, 'x) hyper_client \<Rightarrow> ('conn, 's2 hyper_sender, 'resp, 'x) cstate \<Rightarrow> bool" where
  "sending_kept s cs \<longleftrightarrow>
     (\<forall>t < length (c_tasks (hc_calls s)). \<forall>a sess.
        c_tasks (hc_calls s) ! t = Sending a sess \<longrightarrow> c_tasks cs ! t = Sending a sess)"

definition on_session ::
  "('conn, 's2, 'resp, 'x) hyper_client \<Rightarrow> nat \<Rightarrow> nat \<Rightarrow> bool" where
  "on_session s m t \<longleftrightarrow> t < length (c_tasks (hc_calls s)) \<and> (\<exists>a. c_tasks (hc_calls s) ! t = Sending a (H1 m))"

text \<open>
  The calls that a step of a mutex moves, the one that is polled and the one that gets the lock from
  it, are calls on its session; only calls in \<open>ends\<close> come to their end.
\<close>

definition moves_on_session ::
  "('conn, 's2, 'resp, 'x) hyper_client \<Rightarrow> nat \<Rightarrow> nat set \<Rightarrow> ('resp, 'x) h1_state \<Rightarrow> bool" where
  "moves_on_session s m ends h \<longleftrightarrow>
     (\<forall>t < length (m_tasks h). m_tasks h ! t \<noteq> m_tasks (hc_mutex s m) ! t \<longrightarrow>
        on_session s m t \<and> (h1_over (m_tasks h ! t) \<longrightarrow> t \<in> ends))"

inductive hyper_step ::
  "(string \<Rightarrow> nat) \<Rightarrow> nat \<Rightarrow> nat set \<Rightarrow> ('conn, 's2, 'resp, 'x) hyper_client \<Rightarrow>
   ('conn, 's2, 'resp, 'x) hyper_client \<Rightarrow> bool"
  for shard workers drops where
  pool_move: "pool_step shard workers drops (hc_calls s) cs \<Longrightarrow> sending_kept s cs \<Longrightarrow>
     new_mutexes_fresh s cs \<Longrightarrow> hyper_step shard workers drops s (s\<lparr>hc_calls := cs\<rparr>)"
| h2_answer: "t < length (c_tasks (hc_calls s)) \<Longrightarrow> c_tasks (hc_calls s) ! t = Sending a (H2 s2) \<Longrightarrow>
     worker_free workers (hc_calls s) \<Longrightarrow>
     hyper_step shard workers drops s (s\<lparr>hc_calls := set_task t (Finished r) (hc_calls s)\<rparr>)"
| h2_drop: "t < length (c_tasks (hc_calls s)) \<Longrightarrow> c_tasks (hc_calls s) ! t = Sending a (H2 s2) \<Longrightarrow>
     t \<in> drops \<Longrightarrow> worker_free workers (hc_calls s) \<Longrightarrow>
     hyper_step shard workers drops s (s\<lparr>hc_calls := set_task t Dropped (hc_calls s)\<rparr>)"
| h1_move: "h1_step drops (hc_mutex s m) h \<Longrightarrow> moves_on_session s m {} h \<Longrightarrow>
     worker_free workers (hc_calls s) \<Longrightarrow>
     hyper_step shard workers drops s (s\<lparr>hc_mutex := (hc_mutex s)(m := h)\<rparr>)"
| h1_answer: "h1_step drops (hc_mutex s m) h \<Longrightarrow> moves_on_session s m {t} h \<Longrightarrow> on_session s m t \<Longrightarrow>
     m_tasks h ! t = H1Done r \<Longrightarrow> worker_free workers (hc_calls s) \<Longrightarrow>
     hyper_step shard workers drops s
       (s\<lparr>hc_calls := set_task t (Finished r) (hc_calls s), hc_mutex := (hc_mutex s)(m := h)\<rparr>)"
| h1_drop: "h1_step drops (hc_mutex s m) h \<Longrightarrow> moves_on_session s m {t} h \<Longrightarrow> on_session s m t \<Longrightarrow>
     m_tasks h ! t = H1Dropped \<Longrightarrow> t \<in> drops \<Longrightarrow> worker_free workers (hc_calls s) \<Longrightarrow>
     hyper_step shard workers drops s
       (s\<lparr>hc_calls := set_task t Dropped (hc_calls s), hc_mutex := (hc_mutex s)(m := h)\<rparr>)"

inductive_cases hyper_stepE: "hyper_step shard workers drops s s'"

inductive hyper_reachable ::
  "(string \<Rightarrow> nat) \<Rightarrow> nat \<Rightarrow> nat set \<Rightarrow> string list \<Rightarrow> ('conn, 's2, 'resp, 'x) hyper_client \<Rightarrow> bool"
  for shard workers drops auths where
  hyper_init: "hyper_reachable shard workers drops auths (hyper_client_init auths)"
| hyper_next: "hyper_reachable shard workers drops auths s \<Longrightarrow> hyper_step shard workers drops s s' \<Longrightarrow>
     hyper_reachable shard workers drops auths s'"

section \<open>Both components run as they do alone\<close>

lemma hyper_step_pool:
  "hyper_step shard workers drops s s' \<Longrightarrow>
   pool_step shard workers drops (hc_calls s) (hc_calls s') \<or> hc_calls s' = hc_calls s"
  by (induction rule: hyper_step.induct)
    (auto simp: on_session_def intro: pool_step.respond drop_idle)

lemma hyper_step_mutex:
  "hyper_step shard workers drops s s' \<Longrightarrow>
   h1_step drops (hc_mutex s m) (hc_mutex s' m) \<or> hc_mutex s' m = hc_mutex s m"
  by (induction rule: hyper_step.induct) auto

lemma hyper_reachable_pool:
  "hyper_reachable shard workers drops auths s \<Longrightarrow> reachable shard workers drops auths (hc_calls s)"
proof (induction rule: hyper_reachable.induct)
  case (hyper_next s s')
  then show ?case using hyper_step_pool [OF hyper_next.hyps(2)] by (auto intro: reach_step)
qed (simp add: hyper_client_init_def reach_init)

lemma hyper_reachable_mutex:
  "hyper_reachable shard workers drops auths s \<Longrightarrow> h1_reachable drops (length auths) (hc_mutex s m)"
proof (induction rule: hyper_reachable.induct)
  case (hyper_next s s')
  then show ?case using hyper_step_mutex [OF hyper_next.hyps(2), of m] by (auto intro: h1_reach_step)
qed (simp add: hyper_client_init_def h1_reach_init)

section \<open>Pool and mutexes agree\<close>

text \<open>
  Where a call stands in the pool and at the mutex \<open>m\<close>: only a call that is sending on the session of a
  mutex takes part in it, and a call has ended in both or in none.
\<close>

fun agrees :: "('conn, 's2 hyper_sender, 'resp, 'x) task \<Rightarrow> nat \<Rightarrow> ('resp, 'x) h1_phase \<Rightarrow> bool" where
  "agrees (Sending a (H1 k)) m q = (if k = m then \<not> h1_over q else q = H1Start)"
| "agrees (Finished r) m q = (q = H1Start \<or> q = H1Done r)"
| "agrees Dropped m q = (q = H1Start \<or> q = H1Dropped)"
| "agrees _ m q = (q = H1Start)"

lemma agrees_start [simp]: "agrees p m H1Start"
  by (induction p m "H1Start :: ('c, 'd) h1_phase" rule: agrees.induct) auto

lemma agrees_done: "agrees p m (H1Done r) \<Longrightarrow> p = Finished r"
  by (induction p m "H1Done r :: ('c, 'd) h1_phase" rule: agrees.induct) (auto split: if_splits)

lemma agrees_idle: "agrees p m q \<Longrightarrow> \<not> is_over p \<Longrightarrow> (\<And>a. p \<noteq> Sending a (H1 m)) \<Longrightarrow> q = H1Start"
  by (induction p m q rule: agrees.induct) (auto split: if_splits)

lemma agrees_active: "agrees p m q \<Longrightarrow> q \<noteq> H1Start \<Longrightarrow> \<not> h1_over q \<Longrightarrow> \<exists>a. p = Sending a (H1 m)"
  by (induction p m q rule: agrees.induct) (auto split: if_splits)

definition hyper_inv :: "('conn, 's2, 'resp, 'x) hyper_client \<Rightarrow> bool" where
  "hyper_inv s \<longleftrightarrow>
     (\<forall>m. length (m_tasks (hc_mutex s m)) = length (c_tasks (hc_calls s))) \<and>
     (\<forall>t < length (c_tasks (hc_calls s)). \<forall>m. agrees (c_tasks (hc_calls s) ! t) m (m_tasks (hc_mutex s m) ! t))"

lemma hyper_invD:
  assumes "hyper_inv s"
  shows "length (m_tasks (hc_mutex s m)) = length (c_tasks (hc_calls s))"
    and "t < length (c_tasks (hc_calls s)) \<Longrightarrow> agrees (c_tasks (hc_calls s) ! t) m (m_tasks (hc_mutex s m) ! t)"
  using assms by (simp_all add: hyper_inv_def)

lemma pool_step_over:
  "pool_step shard workers drops s s' \<Longrightarrow> t < length (c_tasks s) \<Longrightarrow> is_over (c_tasks s ! t) \<Longrightarrow>
   c_tasks s' ! t = c_tasks s ! t"
  by (induction rule: pool_step.induct)
    (auto simp: enter_def nth_list_update elim: holds_SomeE split: option.splits)

lemma pool_move_inv:
  assumes inv: "hyper_inv s" and step: "pool_step shard workers drops (hc_calls s) cs" and "sending_kept s cs"
  shows "hyper_inv (s\<lparr>hc_calls := cs\<rparr>)"
proof -
  have "agrees (c_tasks cs ! t) m (m_tasks (hc_mutex s m) ! t)" if t: "t < length (c_tasks (hc_calls s))" for t m
  proof (cases "c_tasks cs ! t = c_tasks (hc_calls s) ! t")
    case False
    then have "\<not> is_over (c_tasks (hc_calls s) ! t)" and "\<And>a. c_tasks (hc_calls s) ! t \<noteq> Sending a (H1 m)"
      using pool_step_over [OF step t] assms(3) t by (auto simp: sending_kept_def)
    with agrees_idle [OF hyper_invD(2) [OF inv t]] show ?thesis by simp
  qed (use hyper_invD(2) [OF inv t] in simp)
  then show ?thesis
    using hyper_invD(1) [OF inv] pool_step_length [OF step] by (simp add: hyper_inv_def)
qed

lemma set_task_inv:
  assumes "hyper_inv s" and "t < length (c_tasks (hc_calls s))" and "\<And>m. m_tasks (hc_mutex s m) ! t = H1Start"
  shows "hyper_inv (s\<lparr>hc_calls := set_task t p (hc_calls s)\<rparr>)"
  using assms by (auto simp: hyper_inv_def nth_list_update)

lemma mutex_inv:
  assumes inv: "hyper_inv s" and step: "h1_step drops (hc_mutex s m) h" and moves: "moves_on_session s m ends h"
    and ends: "\<And>t. t \<in> ends \<Longrightarrow> on_session s m t \<and> agrees (c_tasks cs ! t) m (m_tasks h ! t) \<and>
      is_over (c_tasks cs ! t)"
    and other: "\<And>t. t \<notin> ends \<Longrightarrow> c_tasks cs ! t = c_tasks (hc_calls s) ! t"
    and len: "length (c_tasks cs) = length (c_tasks (hc_calls s))"
  shows "hyper_inv (s\<lparr>hc_calls := cs, hc_mutex := (hc_mutex s)(m := h)\<rparr>)"
proof -
  have hlen: "length (m_tasks h) = length (c_tasks (hc_calls s))"
    using h1_step_length [OF step] hyper_invD(1) [OF inv] by simp
  have "agrees (c_tasks cs ! t) k (m_tasks (((hc_mutex s)(m := h)) k) ! t)"
    if t: "t < length (c_tasks (hc_calls s))" for t k
  proof (cases "t \<in> ends")
    case True
    then obtain a where "c_tasks (hc_calls s) ! t = Sending a (H1 m)" using ends by (auto simp: on_session_def)
    then show ?thesis using ends [OF True] hyper_invD(2) [OF inv t, of k] by auto
  next
    case False
    show ?thesis
    proof (cases "k = m \<and> m_tasks h ! t \<noteq> m_tasks (hc_mutex s m) ! t")
      case True
      then have "on_session s m t" "\<not> h1_over (m_tasks h ! t)"
        using moves t hlen False by (auto simp: moves_on_session_def)
      then show ?thesis using True other [OF False] by (auto simp: on_session_def)
    next
      case unmoved: False
      then have "m_tasks (((hc_mutex s)(m := h)) k) ! t = m_tasks (hc_mutex s k) ! t" by auto
      then show ?thesis using hyper_invD(2) [OF inv t, of k] other [OF False] by simp
    qed
  qed
  then show ?thesis using hlen len hyper_invD(1) [OF inv] by (simp add: hyper_inv_def)
qed

lemma pool_inv_sending:
  "pool_inv shard cs \<Longrightarrow> t < length (c_tasks cs) \<Longrightarrow> c_tasks cs ! t = Sending a sess \<Longrightarrow> c_pool cs a = Some sess"
  by (simp add: pool_inv_def)

lemma hyper_step_inv: "hyper_step shard workers drops s s' \<Longrightarrow> hyper_inv s \<Longrightarrow> hyper_inv s'"
proof (induction rule: hyper_step.induct)
  case (pool_move s cs)
  then show ?case by (intro pool_move_inv)
next
  case (h2_answer t s a s2 r)
  then show ?case using hyper_invD(2) [OF h2_answer.prems h2_answer.hyps(1)] by (intro set_task_inv) auto
next
  case (h2_drop t s a s2)
  then show ?case using hyper_invD(2) [OF h2_drop.prems h2_drop.hyps(1)] by (intro set_task_inv) auto
next
  case (h1_move s m h)
  then show ?case using mutex_inv [of s drops m h "{}" "hc_calls s"] by simp
next
  case (h1_answer s m h t r)
  then show ?case by (intro mutex_inv [where ends = "{t}"]) (auto simp: on_session_def)
next
  case (h1_drop s m h t)
  then show ?case by (intro mutex_inv [where ends = "{t}"]) (auto simp: on_session_def)
qed

lemma hyper_inv_init: "hyper_inv (hyper_client_init auths)"
  by (simp add: hyper_inv_def hyper_client_init_def init_cstate_def h1_init_def)

lemma hyper_reachable_inv: "hyper_reachable shard workers drops auths s \<Longrightarrow> hyper_inv s"
  by (induction rule: hyper_reachable.induct) (auto intro: hyper_inv_init hyper_step_inv)

section \<open>What the client promises\<close>

text \<open>
  C11: The concurrent client over Hyper is a refinement of its two parts: its calls run as the pool allows and
  every session as its mutex allows, and the two agree, so all their invariants hold together.  In
  particular the client has at most one HTTP/1.1 request to an authority awaiting its response at any time,
  however many calls and workers there are, and a call answered at the mutex has that very answer.
\<close>

theorem hyper_client_refines:
  assumes "hyper_reachable shard workers drops auths s"
  shows "reachable shard workers drops auths (hc_calls s) \<and>
    (\<forall>m. h1_reachable drops (length auths) (hc_mutex s m)) \<and>
    (\<forall>a. card {t. t < length auths \<and> (\<exists>m. c_tasks (hc_calls s) ! t = Sending a (H1 m) \<and>
        m_tasks (hc_mutex s m) ! t = H1Sending)} \<le> 1) \<and>
    (\<forall>t m r. t < length auths \<and> m_tasks (hc_mutex s m) ! t = H1Done r \<longrightarrow> c_tasks (hc_calls s) ! t = Finished r)"
proof (intro conjI allI impI)
  note pool = hyper_reachable_pool [OF assms] and mutex = hyper_reachable_mutex [OF assms]
  note len = reachable_length [OF pool]
  show "reachable shard workers drops auths (hc_calls s)" by (rule pool)
  show "h1_reachable drops (length auths) (hc_mutex s m)" for m by (rule mutex)
  fix a
  let ?busy = "{t. t < length auths \<and> (\<exists>m. c_tasks (hc_calls s) ! t = Sending a (H1 m) \<and>
      m_tasks (hc_mutex s m) ! t = H1Sending)}"
  have "t = u" if tu: "t \<in> ?busy" "u \<in> ?busy" for t u
  proof -
    from tu obtain m k where m: "t < length auths" "c_tasks (hc_calls s) ! t = Sending a (H1 m)"
        "m_tasks (hc_mutex s m) ! t = H1Sending"
      and k: "u < length auths" "c_tasks (hc_calls s) ! u = Sending a (H1 k)"
        "m_tasks (hc_mutex s k) ! u = H1Sending" by blast
    have "c_pool (hc_calls s) a = Some (H1 m)" "c_pool (hc_calls s) a = Some (H1 k)"
      using pool_inv_sending [OF reachable_inv [OF pool] _ m(2)]
        pool_inv_sending [OF reachable_inv [OF pool] _ k(2)] m(1) k(1) len by simp_all
    then have "k = m" by simp
    with m k show ?thesis
      using h1_invD(1) [OF h1_reachable_inv [OF mutex], of _ m] h1_reachable_length [OF mutex]
      by (metis h1_holds.simps(2) option.inject)
  qed
  then show "card ?busy \<le> 1" by (auto simp: card_le_Suc0_iff_eq)
next
  fix t m r
  assume t: "t < length auths \<and> m_tasks (hc_mutex s m) ! t = H1Done r"
  then have "agrees (c_tasks (hc_calls s) ! t) m (H1Done r)"
    using hyper_invD(2) [OF hyper_reachable_inv [OF assms], of t m]
      reachable_length [OF hyper_reachable_pool [OF assms]] by simp
  then show "c_tasks (hc_calls s) ! t = Finished r" by (rule agrees_done)
qed

section \<open>Every call comes to its end\<close>

text \<open>The weight of a call counts its steps in the pool and then those at the mutex.\<close>

fun weight :: "(nat \<Rightarrow> ('resp, 'x) h1_phase) \<Rightarrow> ('conn, 's2 hyper_sender, 'resp, 'x) task \<Rightarrow> nat" where
  "weight phase (Sending a (H1 m)) = h1_rank (phase m)"
| "weight phase (Sending a (H2 s2)) = 1"
| "weight phase p = (if is_over p then 0 else rank p + 3)"

definition hyper_weight :: "('conn, 's2, 'resp, 'x) hyper_client \<Rightarrow> nat" where
  "hyper_weight s = (\<Sum>t < length (c_tasks (hc_calls s)).
     weight (\<lambda>m. m_tasks (hc_mutex s m) ! t) (c_tasks (hc_calls s) ! t))"

lemma weight_below: "\<not> is_over p \<Longrightarrow> (\<And>a se. p \<noteq> Sending a se) \<Longrightarrow> rank p' < rank p \<Longrightarrow>
   (\<And>m. phase m = H1Start) \<Longrightarrow> weight phase p' < weight phase p"
  by (induction phase p' rule: weight.induct; cases p) auto

lemma update_lowers: "t < length xs \<Longrightarrow> rank p < rank (xs ! t) \<Longrightarrow>
   \<exists>u < length xs. \<exists>q. xs[t := p] = xs[u := q] \<and> rank q < rank (xs ! u)"
  by blast

lemma sum_lowers:
  "t < (n :: nat) \<Longrightarrow> f t < g t \<Longrightarrow> (\<And>u. u < n \<Longrightarrow> f u \<le> g u) \<Longrightarrow> sum f {..<n} < (sum g {..<n} :: nat)"
  by (rule sum_strict_mono_ex1) auto

lemma pool_step_update:
  "pool_step shard workers drops s s' \<Longrightarrow>
   \<exists>t < length (c_tasks s). \<exists>p. c_tasks s' = (c_tasks s)[t := p] \<and> rank p < rank (c_tasks s ! t)"
  by (induction rule: pool_step.induct) (auto simp: enter_def rank_holds intro!: update_lowers split: option.splits)

lemma rank_over: "rank p = 0 \<longleftrightarrow> is_over p"
  by (cases p) auto

lemma pool_move_weight:
  assumes inv: "hyper_inv s" and step: "pool_step shard workers drops (hc_calls s) cs" and kept: "sending_kept s cs"
  shows "hyper_weight (s\<lparr>hc_calls := cs\<rparr>) < hyper_weight s"
proof -
  let ?w = "\<lambda>cs t. weight (\<lambda>m. m_tasks (hc_mutex s m) ! t) (c_tasks cs ! t)"
  obtain t p where t: "t < length (c_tasks (hc_calls s))" "c_tasks cs = (c_tasks (hc_calls s))[t := p]"
      "rank p < rank (c_tasks (hc_calls s) ! t)"
    using pool_step_update [OF step] by blast
  have live: "\<not> is_over (c_tasks (hc_calls s) ! t)" using t(3) rank_over by (metis not_less_zero)
  have idle: "c_tasks (hc_calls s) ! t \<noteq> Sending a se" for a se
  proof
    assume "c_tasks (hc_calls s) ! t = Sending a se"
    moreover from this have "c_tasks cs ! t = Sending a se" using kept t(1) by (simp add: sending_kept_def)
    ultimately show False using t by simp
  qed
  have "?w cs t < ?w (hc_calls s) t"
    using t live idle agrees_idle [OF hyper_invD(2) [OF inv t(1)] live] by (auto intro!: weight_below)
  moreover from this have "?w cs u \<le> ?w (hc_calls s) u" for u using t(2) by (cases "u = t") simp_all
  ultimately have "sum (?w cs) {..<length (c_tasks (hc_calls s))} < sum (?w (hc_calls s)) {..<length (c_tasks (hc_calls s))}"
    by (rule sum_lowers [OF t(1)])
  then show ?thesis using t(2) by (simp add: hyper_weight_def)
qed

lemma weight_over: "is_over p \<Longrightarrow> weight phase p = 0"
  by (cases p) auto

lemma weight_other:
  "(\<And>a. p \<noteq> Sending a (H1 m)) \<Longrightarrow> (\<And>k. k \<noteq> m \<Longrightarrow> phase' k = phase k) \<Longrightarrow> weight phase' p = weight phase p"
  by (induction phase p rule: weight.induct) auto

lemma h1_rank_over: "h1_over q \<Longrightarrow> h1_rank q = 0"
  by (cases q) auto

lemma h1_total_sum: "h1_total h = (\<Sum>t < length (m_tasks h). h1_rank (m_tasks h ! t))"
  by (simp add: h1_total_def sum_list_sum_nth atLeast0LessThan)

lemma mutex_weight:
  assumes inv: "hyper_inv s" and h1: "h1_inv (hc_mutex s m)"
    and step: "h1_step drops (hc_mutex s m) h" and moves: "moves_on_session s m ends h"
    and ends: "\<And>t. t \<in> ends \<Longrightarrow> on_session s m t \<and> is_over (c_tasks cs ! t) \<and> h1_over (m_tasks h ! t)"
    and other: "\<And>t. t \<notin> ends \<Longrightarrow> c_tasks cs ! t = c_tasks (hc_calls s) ! t"
    and len: "length (c_tasks cs) = length (c_tasks (hc_calls s))"
  shows "hyper_weight (s\<lparr>hc_calls := cs, hc_mutex := (hc_mutex s)(m := h)\<rparr>) < hyper_weight s"
proof -
  let ?n = "length (c_tasks (hc_calls s))" and ?g = "m_tasks (hc_mutex s m)"
  let ?w = "\<lambda>t. weight (\<lambda>k. m_tasks (hc_mutex s k) ! t) (c_tasks (hc_calls s) ! t)"
  let ?w' = "\<lambda>t. weight (\<lambda>k. m_tasks (((hc_mutex s)(m := h)) k) ! t) (c_tasks cs ! t)"
  have hlen: "length (m_tasks h) = ?n" "length ?g = ?n"
    using h1_step_length [OF step] hyper_invD(1) [OF inv] by simp_all
  have "?w' t + h1_rank (?g ! t) = ?w t + h1_rank (m_tasks h ! t)" if t: "t < ?n" for t
  proof (cases "on_session s m t")
    case True
    then obtain a where a: "c_tasks (hc_calls s) ! t = Sending a (H1 m)" by (auto simp: on_session_def)
    show ?thesis
      using a ends [of t] other [of t] by (cases "t \<in> ends") (simp_all add: weight_over h1_rank_over)
  next
    case False
    then have "t \<notin> ends" "m_tasks h ! t = ?g ! t" and "\<And>a. c_tasks (hc_calls s) ! t \<noteq> Sending a (H1 m)"
      using ends [of t] moves t hlen by (auto simp: moves_on_session_def on_session_def)
    moreover from this have "?w' t = ?w t" unfolding other [OF calculation(1)] by (intro weight_other) auto
    ultimately show ?thesis by simp
  qed
  then have "sum ?w' {..<?n} + (\<Sum>t<?n. h1_rank (?g ! t)) = sum ?w {..<?n} + (\<Sum>t<?n. h1_rank (m_tasks h ! t))"
    unfolding sum.distrib [symmetric] by (intro sum.cong) simp_all
  moreover have "(\<Sum>t<?n. h1_rank (m_tasks h ! t)) < (\<Sum>t<?n. h1_rank (?g ! t))"
    using h1_step_rank [OF step h1] by (simp add: h1_total_sum hlen)
  ultimately show ?thesis by (simp add: hyper_weight_def len)
qed

lemma set_task_weight:
  assumes t: "t < length (c_tasks (hc_calls s))" and "c_tasks (hc_calls s) ! t = Sending a (H2 s2)" and "is_over p"
  shows "hyper_weight (s\<lparr>hc_calls := set_task t p (hc_calls s)\<rparr>) < hyper_weight s"
  unfolding hyper_weight_def using assms
  by (simp, intro sum_lowers [OF t]) (auto simp: nth_list_update weight_over)

lemma hyper_step_weight:
  "hyper_step shard workers drops s s' \<Longrightarrow> hyper_inv s \<Longrightarrow> (\<And>m. h1_inv (hc_mutex s m)) \<Longrightarrow>
   hyper_weight s' < hyper_weight s"
proof (induction rule: hyper_step.induct)
  case (pool_move s cs)
  then show ?case by (intro pool_move_weight)
next
  case (h2_answer t s a s2 r)
  then show ?case by (intro set_task_weight) auto
next
  case (h2_drop t s a s2)
  then show ?case by (intro set_task_weight) auto
next
  case (h1_move s m h)
  then show ?case using mutex_weight [of s m drops h "{}" "hc_calls s"] by simp
next
  case (h1_answer s m h t r)
  then show ?case by (intro mutex_weight [where ends = "{t}"]) (auto simp: on_session_def)
next
  case (h1_drop s m h t)
  then show ?case by (intro mutex_weight [where ends = "{t}"]) (auto simp: on_session_def)
qed

text \<open>Progress: first the steps of the pool that every call before its send has.\<close>

lemma pool_move_at:
  assumes "pool_step shard workers drops (hc_calls s) cs" and "new_mutexes_fresh s cs"
    and "c_tasks cs = (c_tasks (hc_calls s))[u := p]" and "\<And>a se. c_tasks (hc_calls s) ! u \<noteq> Sending a se"
  shows "hyper_step shard workers drops s (s\<lparr>hc_calls := cs\<rparr>)"
proof -
  have "sending_kept s cs" unfolding sending_kept_def using assms(3,4) by (metis nth_list_update_neq)
  then show ?thesis using hyper_step.pool_move [OF assms(1) _ assms(2)] by blast
qed

lemma pool_move_ok:
  assumes "pool_step shard workers drops (hc_calls s) cs" and "c_pool cs = c_pool (hc_calls s)"
    and "c_tasks cs = (c_tasks (hc_calls s))[u := p]" and "\<And>a se. c_tasks (hc_calls s) ! u \<noteq> Sending a se"
  shows "\<exists>s'. hyper_step shard workers drops s s'"
proof -
  have "new_mutexes_fresh s cs" using assms(2) by (auto simp: new_mutexes_fresh_def)
  from pool_move_at [OF assms(1) this assms(3,4)] show ?thesis by blast
qed

lemma enter_simps:
  "c_pool (enter shard t a s) = c_pool s"
  "\<exists>p. c_tasks (enter shard t a s) = (c_tasks s)[t := p]"
  by (auto simp: enter_def split: option.splits)

lemma early_progress:
  assumes free: "worker_free workers (hc_calls s)" and u: "u < length (c_tasks (hc_calls s))"
    and live: "\<not> is_over (c_tasks (hc_calls s) ! u)" "\<not> is_blocked (c_tasks (hc_calls s) ! u)"
    and idle: "\<And>a se. c_tasks (hc_calls s) ! u \<noteq> Sending a se"
  shows "\<exists>s'. hyper_step shard workers drops s s'"
proof (cases "c_tasks (hc_calls s) ! u")
  case (Start a)
  show ?thesis
  proof (cases "c_guard (hc_calls s) (shard a)")
    case None
    then show ?thesis using enter_simps pool_move_ok [OF enter_entry [OF u Start free] _ _ idle] by metis
  next
    case (Some k)
    then show ?thesis using pool_move_ok [OF block_entry [OF u Start free] _ _ idle] by simp
  qed
next
  case (Connecting a)
  then show ?thesis using pool_move_ok [OF connect_err [OF u Connecting free] _ _ idle] by simp
next
  case (Handshaking a conn)
  then show ?thesis using pool_move_ok [OF handshake_err [OF u Handshaking free] _ _ idle] by simp
qed (use live idle in auto)

text \<open>Then the steps at a mutex, of the waiting call or of the one that it waits for.\<close>

lemma session_progress:
  assumes inv: "hyper_inv s" and h1: "h1_inv (hc_mutex s m)" and free: "worker_free workers (hc_calls s)"
    and u: "u < length (c_tasks (hc_calls s))" "c_tasks (hc_calls s) ! u = Sending a (H1 m)"
  shows "\<exists>s'. hyper_step shard workers drops s s'"
proof -
  let ?g = "hc_mutex s m"
  have len: "length (m_tasks ?g) = length (c_tasks (hc_calls s))" by (rule hyper_invD(1) [OF inv])
  have on: "on_session s m t" if "t < length (m_tasks ?g)" "m_tasks ?g ! t \<noteq> H1Start" "\<not> h1_over (m_tasks ?g ! t)" for t
    using agrees_active [OF hyper_invD(2) [OF inv, of t m]] that len by (simp add: on_session_def)
  have "\<not> h1_over (m_tasks ?g ! u)" using hyper_invD(2) [OF inv u(1), of m] u(2) by simp
  from h1 u(1) [folded len] this show ?thesis
  proof (cases rule: h1_progress_cases)
    case take
    let ?h = "h1_set u H1Readying (?g\<lparr>m_holder := Some u, m_order := m_order ?g @ [u]\<rparr>)"
    have "moves_on_session s m {} ?h"
      using u len by (auto simp: moves_on_session_def on_session_def nth_list_update split: if_splits)
    then show ?thesis using h1_move [OF lock_free _ free] u(1) len take by metis
  next
    case (answer t r)
    let ?h = "h1_unlock (h1_set t (H1Done r) ?g)"
    have active: "m_tasks ?g ! t \<noteq> H1Start" "\<not> h1_over (m_tasks ?g ! t)"
      using answer(2) by (cases "m_tasks ?g ! t"; simp)+
    have "moves_on_session s m {t} ?h"
      unfolding moves_on_session_def
    proof (intro allI impI)
      fix v assume v: "v < length (m_tasks ?h)" "m_tasks ?h ! v \<noteq> m_tasks ?g ! v"
      show "on_session s m v \<and> (h1_over (m_tasks ?h ! v) \<longrightarrow> v \<in> {t})"
      proof (cases "v = t")
        case True
        then show ?thesis using on [OF answer(1) active] by simp
      next
        case False
        with v obtain w q where queue: "m_queue ?g = w # q" by (cases "m_queue ?g") (auto simp: h1_unlock_def)
        with v False have "w = v" by (cases "w = v") (auto simp: h1_unlock_def)
        with v queue have q: "m_queue ?g = v # q" "m_tasks ?h ! v = H1Readying" by (auto simp: h1_unlock_def)
        then have "m_tasks ?g ! v = H1Waiting" "v < length (m_tasks ?g)" using h1_invD(5) [OF h1, of v] by auto
        then show ?thesis using on [of v] q(2) by simp
      qed
    qed
    moreover have "m_tasks ?h ! t = H1Done r" by (rule h1_unlock_keeps [OF h1 answer(1,2)])
    ultimately show ?thesis
      using h1_answer [OF answer(3) _ on [OF answer(1) active] _ free] by blast
  qed
qed

lemma waiting_progress:
  assumes inv: "pool_inv shard (hc_calls s)" and t: "t < length (c_tasks (hc_calls s))" "\<not> is_over (c_tasks (hc_calls s) ! t)"
    and only: "\<And>u. u < length (c_tasks (hc_calls s)) \<Longrightarrow>
      is_over (c_tasks (hc_calls s) ! u) \<or> is_blocked (c_tasks (hc_calls s) ! u)"
  shows "\<exists>s'. hyper_step shard workers drops s s'"
proof -
  obtain a where a: "c_tasks (hc_calls s) ! t = Blocked a" "c_guard (hc_calls s) (shard a) = None"
    by (rule blocked_unlocked [OF inv t only])
  then have "\<And>b se. c_tasks (hc_calls s) ! t \<noteq> Sending b se" by simp
  then show ?thesis
    using enter_simps pool_move_ok [OF unblock_entry [where shard = shard, OF t(1) a]] by metis
qed

lemma hyper_progress:
  assumes inv: "hyper_inv s" and pool: "pool_inv shard (hc_calls s)" and h1: "\<And>m. h1_inv (hc_mutex s m)"
    and few: "length (c_tasks (hc_calls s)) \<le> workers"
    and t: "t < length (c_tasks (hc_calls s))" "\<not> is_over (c_tasks (hc_calls s) ! t)"
  shows "\<exists>s'. hyper_step shard workers drops s s'"
proof (cases "\<exists>u < length (c_tasks (hc_calls s)). \<not> is_over (c_tasks (hc_calls s) ! u) \<and> \<not> is_blocked (c_tasks (hc_calls s) ! u)")
  case True
  then obtain u where u: "u < length (c_tasks (hc_calls s))" "\<not> is_over (c_tasks (hc_calls s) ! u)"
      "\<not> is_blocked (c_tasks (hc_calls s) ! u)" by blast
  then have free: "worker_free workers (hc_calls s)" by (intro worker_free_if [OF few nth_mem [OF u(1)]])
  consider "\<And>a se. c_tasks (hc_calls s) ! u \<noteq> Sending a se"
    | a m where "c_tasks (hc_calls s) ! u = Sending a (H1 m)"
    | a s2 where "c_tasks (hc_calls s) ! u = Sending a (H2 s2)"
    by (metis hyper_sender.exhaust)
  then show ?thesis
    using early_progress [OF free u] session_progress [OF inv h1 free u(1)] h2_answer [OF u(1) _ free]
    by cases blast+
next
  case False
  then show ?thesis using waiting_progress [OF pool t] by blast
qed

text \<open>
  C12: Every call to the client over Hyper comes to its end: each step, of the pool or of the mutex of a session,
  lowers one measure, and with at least as many workers as calls a state in which nothing can move is one
  where every call has its answer or was given up.  The calls that queue for one HTTP/1.1 connection never
  block the executor nor each other for good.
\<close>

theorem hyper_client_answers:
  assumes "hyper_reachable shard workers drops auths s"
  shows "(\<forall>s'. hyper_step shard workers drops s s' \<longrightarrow> hyper_weight s' < hyper_weight s) \<and>
    (length auths \<le> workers \<and> (\<nexists>s'. hyper_step shard workers drops s s') \<longrightarrow>
      (\<forall>t < length auths. is_finished (c_tasks (hc_calls s) ! t) \<or> t \<in> drops \<and> c_tasks (hc_calls s) ! t = Dropped))"
proof (intro conjI allI impI)
  note pool = hyper_reachable_pool [OF assms] and inv = hyper_reachable_inv [OF assms]
    and h1 = h1_reachable_inv [OF hyper_reachable_mutex [OF assms]]
  show "hyper_weight s' < hyper_weight s" if "hyper_step shard workers drops s s'" for s'
    by (rule hyper_step_weight [OF that inv h1])
  fix t assume stuck: "length auths \<le> workers \<and> (\<nexists>s'. hyper_step shard workers drops s s')" and t: "t < length auths"
  then have "is_over (c_tasks (hc_calls s) ! t)"
    using hyper_progress [OF inv reachable_inv [OF pool] h1] reachable_length [OF pool] by auto
  then show "is_finished (c_tasks (hc_calls s) ! t) \<or> t \<in> drops \<and> c_tasks (hc_calls s) ! t = Dropped"
    using only_drops_dropped [OF pool t] by (auto simp: over_cases)
qed

section \<open>An example run\<close>

text \<open>Two calls to one authority: the first sets up an HTTP/1.1 session, the second finds it in the pool.\<close>

type_synonym sample_client = "(unit, nat, nat, nat) hyper_client"

definition sample_at ::
  "(unit, nat hyper_sender, nat, nat) task list \<Rightarrow> (nat, nat) h1_state \<Rightarrow> sample_client" where
  "sample_at tasks h =
     \<lparr>hc_calls = \<lparr>c_pool = [''h'' \<mapsto> H1 0], c_guard = Map.empty, c_tasks = tasks, c_drivers = [H1 0]\<rparr>,
      hc_mutex = (\<lambda>m. h1_init 2)(0 := h)\<rparr>"

definition sample_setup :: "(unit, nat hyper_sender, nat, nat) task \<Rightarrow> sample_client" where
  "sample_setup p =
     \<lparr>hc_calls = \<lparr>c_pool = Map.empty, c_guard = [0 \<mapsto> 0], c_tasks = [p, Start ''h''], c_drivers = []\<rparr>,
      hc_mutex = (\<lambda>m. h1_init 2)\<rparr>"

lemmas sample_moves = enter_def set_task_def release_def sample_setup_def sample_at_def
  hyper_client_init_def init_cstate_def worker_free_def new_mutexes_fresh_def

lemma sample_setup_reachable:
  "hyper_reachable (\<lambda>_. 0) 2 {} [''h'', ''h''] (sample_setup (Handshaking ''h'' ()))"
proof -
  let ?i = "hyper_client_init [''h'', ''h''] :: sample_client"
  have "hyper_step (\<lambda>_. 0) 2 {} ?i (?i\<lparr>hc_calls := enter (\<lambda>_. 0) 0 ''h'' (hc_calls ?i)\<rparr>)"
    by (rule pool_move_at [where u = 0, OF enter_entry]) (simp_all add: sample_moves)
  moreover have "?i\<lparr>hc_calls := enter (\<lambda>_. 0) 0 ''h'' (hc_calls ?i)\<rparr> = sample_setup (Connecting ''h'')"
    by (simp add: sample_moves numeral_2_eq_2)
  ultimately have a: "hyper_reachable (\<lambda>_. 0) 2 {} [''h'', ''h''] (sample_setup (Connecting ''h''))"
    using hyper_next [OF hyper_init] by metis
  let ?s = "sample_setup (Connecting ''h'')"
  have "hyper_step (\<lambda>_. 0) 2 {} ?s (?s\<lparr>hc_calls := set_task 0 (Handshaking ''h'' ()) (hc_calls ?s)\<rparr>)"
    by (rule pool_move_at [where u = 0, OF connect_ok]) (simp_all add: sample_moves)
  from hyper_next [OF a this] show ?thesis by (simp add: sample_moves)
qed

lemma sample_sending_reachable:
  "hyper_reachable (\<lambda>_. 0) 2 {} [''h'', ''h''] (sample_at [Sending ''h'' (H1 0), Sending ''h'' (H1 0)] (h1_init 2))"
proof -
  let ?s = "sample_setup (Handshaking ''h'' ())" and ?t = "sample_at [Sending ''h'' (H1 0), Start ''h''] (h1_init 2)"
  have "hyper_step (\<lambda>_. 0) 2 {} ?s (?s\<lparr>hc_calls := release (\<lambda>_. 0) ''h'' (set_task 0 (Sending ''h'' (H1 0))
      ((hc_calls ?s)\<lparr>c_drivers := c_drivers (hc_calls ?s) @ [H1 0], c_pool := (c_pool (hc_calls ?s))(''h'' \<mapsto> H1 0)\<rparr>))\<rparr>)"
    by (rule pool_move_at [where u = 0, OF handshake_ok]) (simp_all add: sample_moves)
  from hyper_next [OF sample_setup_reachable this]
  have t: "hyper_reachable (\<lambda>_. 0) 2 {} [''h'', ''h''] ?t" by (simp add: sample_moves fun_upd_idem)
  have "hyper_step (\<lambda>_. 0) 2 {} ?t (?t\<lparr>hc_calls := enter (\<lambda>_. 0) 1 ''h'' (hc_calls ?t)\<rparr>)"
    by (rule pool_move_at [where u = 1, OF enter_entry]) (simp_all add: sample_moves)
  from hyper_next [OF t this] show ?thesis by (simp add: sample_moves)
qed

text \<open>The first call has handed its request to hyper, the second waits for the mutex.\<close>

definition sample_queue :: sample_client where
  "sample_queue = sample_at [Sending ''h'' (H1 0), Sending ''h'' (H1 0)] h1_sample"

lemma sample_queue_reachable: "hyper_reachable (\<lambda>_. 0) 2 {} [''h'', ''h''] sample_queue"
proof -
  let ?at = "sample_at [Sending ''h'' (H1 0), Sending ''h'' (H1 0)]"
  let ?a = "h1_set 0 H1Readying (h1_init 2\<lparr>m_holder := Some 0, m_order := [0]\<rparr>)"
  let ?b = "h1_set 1 H1Waiting (?a\<lparr>m_queue := [1], m_order := [0, 1]\<rparr>)"
  have move: "hyper_step (\<lambda>_. 0) 2 {} (?at g) (?at h)"
    if "h1_step {} g h" "list_all (\<lambda>q. \<not> h1_over q) (m_tasks h)" "length (m_tasks h) = 2" for g h
  proof -
    have "c_tasks (hc_calls (?at g)) ! t = Sending ''h'' (H1 0)" if "t < 2" for t
      using that by (auto simp: sample_at_def less_2_cases_iff)
    then have "moves_on_session (?at g) 0 {} h"
      using that by (auto simp: moves_on_session_def on_session_def list_all_length) (simp add: sample_at_def)
    from h1_move [where m = 0 and s = "?at g", OF _ this] that(1)
    show ?thesis by (simp add: sample_at_def worker_free_def)
  qed
  have "h1_step {} (h1_init 2) ?a" using lock_free [of 0 "h1_init 2" "{}"] by (simp add: h1_init_def)
  note a = hyper_next [OF sample_sending_reachable move [OF this]]
  have "h1_step {} ?a ?b" using lock_wait [of 1 ?a "{}"] by (simp add: h1_init_def)
  note b = hyper_next [OF a move [OF this]]
  have "h1_step {} ?b h1_sample"
    using ready_ok [of 0 ?b "{}"] by (simp add: h1_sample_def h1_init_def h1_set_def numeral_2_eq_2)
  from hyper_next [OF b move [OF this]] show ?thesis
    by (simp add: sample_queue_def h1_sample_def h1_init_def numeral_2_eq_2)
qed

theorem hyper_client_refines_witness:
  "reachable (\<lambda>_. 0) 2 {} [''h'', ''h''] (hc_calls sample_queue) \<and>
   card {t. t < 2 \<and> (\<exists>m. c_tasks (hc_calls sample_queue) ! t = Sending ''h'' (H1 m) \<and>
     m_tasks (hc_mutex sample_queue m) ! t = H1Sending)} \<le> 1 \<and>
   c_tasks (hc_calls sample_queue) ! 1 = Sending ''h'' (H1 0) \<and> m_tasks (hc_mutex sample_queue 0) ! 1 = H1Waiting"
  using hyper_client_refines [OF sample_queue_reachable]
  by (simp add: sample_queue_def sample_at_def h1_sample_def numeral_2_eq_2)

theorem hyper_client_answers_witness:
  "\<exists>s'. hyper_step (\<lambda>_. 0) 2 {} sample_queue s' \<and> hyper_weight s' < hyper_weight sample_queue"
proof -
  have "hyper_inv sample_queue" by (rule hyper_reachable_inv [OF sample_queue_reachable])
  then have "\<exists>s'. hyper_step (\<lambda>_. 0) 2 {} sample_queue s'"
    by (rule session_progress [where u = 0 and a = "''h''" and m = 0,
          OF _ h1_reachable_inv [OF hyper_reachable_mutex [OF sample_queue_reachable]]])
      (simp_all add: sample_queue_def sample_at_def worker_free_def)
  then show ?thesis using hyper_client_answers [OF sample_queue_reachable] by blast
qed

end
