(* ===== verification/Streams.thy ===== *)
theory Streams
  imports Prelude
begin

text \<open>
  The \<open>AsyncRead\<close> and \<open>AsyncWrite\<close> traits of \<open>futures_lite\<close> as records of their poll
  methods, with their documented contracts as locales.

  \<open>nonzero_writer\<close>: a write takes at most what it is offered and, offered something,
  takes something.  \<open>recording_writer\<close> adds that what it takes is the front of what it is
  offered, in an abstraction \<open>written\<close>.  \<open>lawful_reader\<close>: a read fills the front of the
  buffer with the next bytes, and reads nothing only at the end.
\<close>

record ('s, 'e) async_write =
  poll_write :: "byte list \<Rightarrow> 's \<Rightarrow> ('e + nat) poll \<times> 's"
  poll_flush :: "'s \<Rightarrow> ('e + unit) poll \<times> 's"
  poll_close :: "'s \<Rightarrow> ('e + unit) poll \<times> 's"

text \<open>\<open>poll_read\<close> gets the buffer and returns it filled.\<close>

record ('s, 'e) async_read =
  poll_read :: "byte list \<Rightarrow> 's \<Rightarrow> ('e + nat) poll \<times> byte list \<times> 's"

locale nonzero_writer =
  fixes W :: "('s, 'e) async_write"
  assumes write_bound: "poll_write W buf s = (Ready (Inr n), s') \<Longrightarrow> n \<le> length buf"
    and write_nonzero: "poll_write W buf s = (Ready (Inr n), s') \<Longrightarrow> buf \<noteq> [] \<Longrightarrow> 0 < n"

locale recording_writer = nonzero_writer W for W :: "('s, 'e) async_write" +
  fixes written :: "'s \<Rightarrow> byte list"
  assumes write_ok: "poll_write W buf s = (Ready (Inr n), s') \<Longrightarrow> written s' = written s @ take n buf"
    and write_err: "poll_write W buf s = (Ready (Inl e), s') \<Longrightarrow> written s' = written s"
    and write_pending: "poll_write W buf s = (Pending, s') \<Longrightarrow> written s' = written s"
    and flush_written: "written (snd (poll_flush W s)) = written s"

locale lawful_reader =
  fixes R :: "('s, 'e) async_read" and incoming :: "'s \<Rightarrow> byte list"
  assumes read_ok: "poll_read R buf s = (Ready (Inr n), buf', s') \<Longrightarrow>
        n \<le> length buf \<and> length buf' = length buf \<and> incoming s = take n buf' @ incoming s'"
    and read_eof: "poll_read R buf s = (Ready (Inr 0), buf', s') \<Longrightarrow> buf \<noteq> [] \<Longrightarrow> incoming s = []"
    and read_err: "poll_read R buf s = (Ready (Inl e), buf', s') \<Longrightarrow> incoming s' = incoming s"
    and read_pending: "poll_read R buf s = (Pending, buf', s') \<Longrightarrow> incoming s' = incoming s"

section \<open>Streams inside other values\<close>

text \<open>
  A stream that passes every poll on to a stream inside it, reached by \<open>get\<close> and put back by
  \<open>put\<close>, keeps the contract of the inner one.
\<close>

lemma recording_writer_via:
  assumes "recording_writer W written" and "\<And>s i. get (put s i) = i"
    and writes: "\<And>buf s. poll_write V buf s = map_prod id (put s) (poll_write W buf (get s))"
    and flushes: "\<And>s. poll_flush V s = map_prod id (put s) (poll_flush W (get s))"
  shows "recording_writer V (\<lambda>s. written (get s))"
proof -
  note W = recording_writer.axioms [OF assms(1)]
  note laws = nonzero_writer.write_bound [OF W(1)] nonzero_writer.write_nonzero [OF W(1)]
    recording_writer.write_ok [OF assms(1)] recording_writer.write_err [OF assms(1)]
    recording_writer.write_pending [OF assms(1)] recording_writer.flush_written [OF assms(1)]
  show ?thesis
    by unfold_locales (auto simp: writes flushes map_prod_eq_iff assms(2) laws(6) dest: laws(1,3-5) intro: laws(2))
qed

lemma lawful_reader_via:
  assumes "lawful_reader R incoming" and "\<And>s i. get (put s i) = i"
    and reads: "\<And>buf s. poll_read Q buf s = map_prod id (map_prod id (put s)) (poll_read R buf (get s))"
  shows "lawful_reader Q (\<lambda>s. incoming (get s))"
proof -
  note laws = lawful_reader.read_ok [OF assms(1)] lawful_reader.read_eof [OF assms(1)]
    lawful_reader.read_err [OF assms(1)] lawful_reader.read_pending [OF assms(1)]
  show ?thesis by unfold_locales (auto simp: reads map_prod_eq_iff assms(2) dest: laws)
qed

section \<open>A pipe of bounded capacity\<close>

text \<open>
  A stream that takes and gives at most \<open>cap\<close> bytes at a time and is pending as often as
  its budget says: the instance on which the contracts are shown to hold.
\<close>

record pipe =
  pipe_out :: "byte list"
  pipe_in :: "byte list"
  pipe_pending :: nat

definition pipe_write :: "nat \<Rightarrow> (pipe, 'e) async_write" where
  "pipe_write cap =
     \<lparr>poll_write = (\<lambda>buf p.
        if 0 < pipe_pending p then (Pending, p\<lparr>pipe_pending := pipe_pending p - 1\<rparr>)
        else (let n = min (Suc cap) (length buf)
              in (Ready (Inr n), p\<lparr>pipe_out := pipe_out p @ take n buf\<rparr>))),
      poll_flush = (\<lambda>p. (Ready (Inr ()), p)), poll_close = (\<lambda>p. (Ready (Inr ()), p))\<rparr>"

definition pipe_read :: "nat \<Rightarrow> (pipe, 'e) async_read" where
  "pipe_read cap =
     \<lparr>poll_read = (\<lambda>buf p.
        if 0 < pipe_pending p then (Pending, buf, p\<lparr>pipe_pending := pipe_pending p - 1\<rparr>)
        else (let n = min (min (Suc cap) (length buf)) (length (pipe_in p))
              in (Ready (Inr n), take n (pipe_in p) @ drop n buf, p\<lparr>pipe_in := drop n (pipe_in p)\<rparr>)))\<rparr>"

interpretation pipe_w: recording_writer "pipe_write cap" pipe_out for cap
  by unfold_locales (auto simp: pipe_write_def Let_def split: if_splits)

interpretation pipe_r: lawful_reader "pipe_read cap" pipe_in for cap
  by unfold_locales (auto simp: pipe_read_def Let_def min_def split: if_splits)

end
