(* ===== verification/H3Adapter.thy ===== *)
theory H3Adapter
  imports Transport Streams
begin

text \<open>
  The adapter between a navar connection and the traits of the \<open>h3\<close> crate
  (\<open>navar-h3/src/adapter.rs\<close>).

  \<open>h3_connection\<close> keeps a future in flight for each of the four operations; a future
  and how it is polled are parameters.  \<open>h3_send_stream\<close>, \<open>h3_recv_stream\<close> and
  \<open>h3_bidi_stream\<close> wrap a stream of the transport; \<open>None\<close> as the value of a method is
  a call that does not return (a loop that spins, a panic of \<open>advance\<close> or \<open>unwrap\<close>).
\<close>

section \<open>Errors\<close>

datatype connection_error = ApplicationClose "64 word"
datatype h3_stream_error = ConnectionErrorIncoming connection_error

text \<open>\<open>no_error\<close> is the value of \<open>h3::error::Code::H3_NO_ERROR\<close>.\<close>

definition conn_closed :: "64 word \<Rightarrow> connection_error" where
  "conn_closed no_error = ApplicationClose no_error"

definition stream_error :: "64 word \<Rightarrow> h3_stream_error" where
  "stream_error no_error = ConnectionErrorIncoming (conn_closed no_error)"

section \<open>The connection: one future in flight per operation\<close>

record ('conn, 'fb, 'fs, 'fr) h3_connection =
  hc_inner :: 'conn
  hc_accept_bidi_fut :: "'fb option"
  hc_accept_uni_fut :: "'fr option"
  hc_open_bidi_fut :: "'fb option"
  hc_open_uni_fut :: "'fs option"

text \<open>The futures of a connection: how they are made and how they are polled.\<close>

record ('conn, 'bidi, 'send, 'recv, 'fb, 'fs, 'fr, 'w, 'x) conn_futures =
  cf_open_bidirectional :: "'conn \<Rightarrow> 'fb"
  cf_open_unidirectional :: "'conn \<Rightarrow> 'fs"
  cf_accept_bidirectional :: "'conn \<Rightarrow> 'fb"
  cf_accept_unidirectional :: "'conn \<Rightarrow> 'fr"
  cf_poll_bidi :: "'fb \<Rightarrow> 'w \<Rightarrow> ('x error + 'bidi) poll \<times> 'fb \<times> 'w"
  cf_poll_send :: "'fs \<Rightarrow> 'w \<Rightarrow> ('x error + 'send) poll \<times> 'fs \<times> 'w"
  cf_poll_recv :: "'fr \<Rightarrow> 'w \<Rightarrow> ('x error + 'recv) poll \<times> 'fr \<times> 'w"

definition h3_connection_new :: "'conn \<Rightarrow> ('conn, 'fb, 'fs, 'fr) h3_connection" where
  "h3_connection_new inner =
     \<lparr>hc_inner = inner, hc_accept_bidi_fut = None, hc_accept_uni_fut = None,
      hc_open_bidi_fut = None, hc_open_uni_fut = None\<rparr>"

definition h3_connection_clone :: "('conn, 'fb, 'fs, 'fr) h3_connection \<Rightarrow> ('conn, 'fb, 'fs, 'fr) h3_connection" where
  "h3_connection_clone h =
     \<lparr>hc_inner = hc_inner h, hc_accept_bidi_fut = None, hc_accept_uni_fut = None,
      hc_open_bidi_fut = None, hc_open_uni_fut = None\<rparr>"

definition h3_opener :: "('conn, 'fb, 'fs, 'fr) h3_connection \<Rightarrow> ('conn, 'fb, 'fs, 'fr) h3_connection" where
  "h3_opener h = h3_connection_clone h"

definition h3_close :: "64 word \<Rightarrow> byte list \<Rightarrow> ('conn, 'fb, 'fs, 'fr) h3_connection \<Rightarrow> ('conn, 'fb, 'fs, 'fr) h3_connection" where
  "h3_close code reason h = h"

section \<open>The streams\<close>

record 's h3_recv_stream =
  hr_inner :: 's

record 's h3_send_stream =
  hs_inner :: 's
  hs_buf :: "byte list"

record 's h3_bidi_stream =
  hb_inner :: 's
  hb_send_buf :: "byte list"

definition h3_recv_new :: "'s \<Rightarrow> 's h3_recv_stream" where
  "h3_recv_new inner = \<lparr>hr_inner = inner\<rparr>"

definition h3_send_new :: "'s \<Rightarrow> 's h3_send_stream" where
  "h3_send_new inner = \<lparr>hs_inner = inner, hs_buf = []\<rparr>"

definition h3_bidi_new :: "'s \<Rightarrow> 's h3_bidi_stream" where
  "h3_bidi_new inner = \<lparr>hb_inner = inner, hb_send_buf = []\<rparr>"

text \<open>
  The four poll functions of the connection. Every arm of the loop body returns, so the loop
  runs its body once; the \<open>unwrap\<close> after the slot was filled is the case \<open>None\<close>.
\<close>

definition poll_open_bidi ::
  "64 word \<Rightarrow> ('conn, 'bidi, 'send, 'recv, 'fb, 'fs, 'fr, 'w, 'x) conn_futures \<Rightarrow>
   ('conn, 'fb, 'fs, 'fr) h3_connection \<Rightarrow> 'w \<Rightarrow>
   ((h3_stream_error + 'bidi h3_bidi_stream) poll \<times> ('conn, 'fb, 'fs, 'fr) h3_connection \<times> 'w) option" where
  "poll_open_bidi no_error F h w =
     (let h = (if Option.is_none (hc_open_bidi_fut h)
               then h\<lparr>hc_open_bidi_fut := Some (cf_open_bidirectional F (hc_inner h))\<rparr> else h) in
      case hc_open_bidi_fut h of
        None \<Rightarrow> None
      | Some fut \<Rightarrow>
          Some (case cf_poll_bidi F fut w of
             (Ready (Inr stream), _, w') \<Rightarrow>
               (Ready (Inr (h3_bidi_new stream)), h\<lparr>hc_open_bidi_fut := None\<rparr>, w')
           | (Ready (Inl _), _, w') \<Rightarrow>
               (Ready (Inl (stream_error no_error)), h\<lparr>hc_open_bidi_fut := None\<rparr>, w')
           | (Pending, fut', w') \<Rightarrow> (Pending, h\<lparr>hc_open_bidi_fut := Some fut'\<rparr>, w')))"

definition poll_open_send ::
  "64 word \<Rightarrow> ('conn, 'bidi, 'send, 'recv, 'fb, 'fs, 'fr, 'w, 'x) conn_futures \<Rightarrow>
   ('conn, 'fb, 'fs, 'fr) h3_connection \<Rightarrow> 'w \<Rightarrow>
   ((h3_stream_error + 'send h3_send_stream) poll \<times> ('conn, 'fb, 'fs, 'fr) h3_connection \<times> 'w) option" where
  "poll_open_send no_error F h w =
     (let h = (if Option.is_none (hc_open_uni_fut h)
               then h\<lparr>hc_open_uni_fut := Some (cf_open_unidirectional F (hc_inner h))\<rparr> else h) in
      case hc_open_uni_fut h of
        None \<Rightarrow> None
      | Some fut \<Rightarrow>
          Some (case cf_poll_send F fut w of
             (Ready (Inr stream), _, w') \<Rightarrow>
               (Ready (Inr (h3_send_new stream)), h\<lparr>hc_open_uni_fut := None\<rparr>, w')
           | (Ready (Inl _), _, w') \<Rightarrow>
               (Ready (Inl (stream_error no_error)), h\<lparr>hc_open_uni_fut := None\<rparr>, w')
           | (Pending, fut', w') \<Rightarrow> (Pending, h\<lparr>hc_open_uni_fut := Some fut'\<rparr>, w')))"

definition poll_accept_bidi ::
  "64 word \<Rightarrow> ('conn, 'bidi, 'send, 'recv, 'fb, 'fs, 'fr, 'w, 'x) conn_futures \<Rightarrow>
   ('conn, 'fb, 'fs, 'fr) h3_connection \<Rightarrow> 'w \<Rightarrow>
   ((connection_error + 'bidi h3_bidi_stream) poll \<times> ('conn, 'fb, 'fs, 'fr) h3_connection \<times> 'w) option" where
  "poll_accept_bidi no_error F h w =
     (let h = (if Option.is_none (hc_accept_bidi_fut h)
               then h\<lparr>hc_accept_bidi_fut := Some (cf_accept_bidirectional F (hc_inner h))\<rparr> else h) in
      case hc_accept_bidi_fut h of
        None \<Rightarrow> None
      | Some fut \<Rightarrow>
          Some (case cf_poll_bidi F fut w of
             (Ready (Inr stream), _, w') \<Rightarrow>
               (Ready (Inr (h3_bidi_new stream)), h\<lparr>hc_accept_bidi_fut := None\<rparr>, w')
           | (Ready (Inl _), _, w') \<Rightarrow>
               (Ready (Inl (conn_closed no_error)), h\<lparr>hc_accept_bidi_fut := None\<rparr>, w')
           | (Pending, fut', w') \<Rightarrow> (Pending, h\<lparr>hc_accept_bidi_fut := Some fut'\<rparr>, w')))"

definition poll_accept_recv ::
  "64 word \<Rightarrow> ('conn, 'bidi, 'send, 'recv, 'fb, 'fs, 'fr, 'w, 'x) conn_futures \<Rightarrow>
   ('conn, 'fb, 'fs, 'fr) h3_connection \<Rightarrow> 'w \<Rightarrow>
   ((connection_error + 'recv h3_recv_stream) poll \<times> ('conn, 'fb, 'fs, 'fr) h3_connection \<times> 'w) option" where
  "poll_accept_recv no_error F h w =
     (let h = (if Option.is_none (hc_accept_uni_fut h)
               then h\<lparr>hc_accept_uni_fut := Some (cf_accept_unidirectional F (hc_inner h))\<rparr> else h) in
      case hc_accept_uni_fut h of
        None \<Rightarrow> None
      | Some fut \<Rightarrow>
          Some (case cf_poll_recv F fut w of
             (Ready (Inr stream), _, w') \<Rightarrow>
               (Ready (Inr (h3_recv_new stream)), h\<lparr>hc_accept_uni_fut := None\<rparr>, w')
           | (Ready (Inl _), _, w') \<Rightarrow>
               (Ready (Inl (conn_closed no_error)), h\<lparr>hc_accept_uni_fut := None\<rparr>, w')
           | (Pending, fut', w') \<Rightarrow> (Pending, h\<lparr>hc_accept_uni_fut := Some fut'\<rparr>, w')))"

section \<open>What a poll of the connection drives\<close>

text \<open>
  \<open>fut_drive\<close> polls a future until it is ready, \<open>op_drive\<close> calls one of the poll functions
  until it is ready; \<open>None\<close> when \<open>n\<close> polls are not enough.
\<close>

fun fut_drive :: "('fut \<Rightarrow> 'w \<Rightarrow> 'a poll \<times> 'fut \<times> 'w) \<Rightarrow> nat \<Rightarrow> 'fut \<Rightarrow> 'w \<Rightarrow> ('a \<times> 'w) option" where
  "fut_drive fut_poll 0 fut w = None"
| "fut_drive fut_poll (Suc n) fut w =
     (case fut_poll fut w of
        (Ready a, _, w') \<Rightarrow> Some (a, w')
      | (Pending, fut', w') \<Rightarrow> fut_drive fut_poll n fut' w')"

fun op_drive ::
  "('h \<Rightarrow> 'w \<Rightarrow> ('r poll \<times> 'h \<times> 'w) option) \<Rightarrow> nat \<Rightarrow> 'h \<Rightarrow> 'w \<Rightarrow> ('r \<times> 'h \<times> 'w) option" where
  "op_drive poll_op 0 h w = None"
| "op_drive poll_op (Suc n) h w =
     (case poll_op h w of
        None \<Rightarrow> None
      | Some (Ready r, h', w') \<Rightarrow> Some (r, h', w')
      | Some (Pending, h', w') \<Rightarrow> op_drive poll_op n h' w')"

text \<open>
  The contract of a cached poll: it polls the future in flight, or a new one if there is none,
  keeps it while it is pending and drops it when it is ready; \<open>rest\<close> is everything else in
  the state.
\<close>

locale cached_poll =
  fixes poll_op :: "'h \<Rightarrow> 'w \<Rightarrow> ('r poll \<times> 'h \<times> 'w) option"
    and slot :: "'h \<Rightarrow> 'fut option" and start :: "'h \<Rightarrow> 'fut"
    and fut_poll :: "'fut \<Rightarrow> 'w \<Rightarrow> 'a poll \<times> 'fut \<times> 'w"
    and answer :: "'a \<Rightarrow> 'r" and set_slot :: "'fut option \<Rightarrow> 'h \<Rightarrow> 'h"
  assumes poll_is: "poll_op h w =
      Some (case fut_poll (case slot h of None \<Rightarrow> start h | Some fut \<Rightarrow> fut) w of
              (Ready a, _, w') \<Rightarrow> (Ready (answer a), set_slot None h, w')
            | (Pending, fut', w') \<Rightarrow> (Pending, set_slot (Some fut') h, w'))"
    and slot_set: "slot (set_slot f h) = f"
    and set_set: "set_slot f (set_slot g h) = set_slot f h"
begin

definition in_flight :: "'h \<Rightarrow> 'fut" where
  "in_flight h = (case slot h of None \<Rightarrow> start h | Some fut \<Rightarrow> fut)"

text \<open>
  Polling until ready is running one future to its end: no poll starts a second future or
  drops a pending one, and at the end the slot is free again.
\<close>

lemma drive: "op_drive poll_op n h w =
    map_option (\<lambda>(a, w'). (answer a, set_slot None h, w')) (fut_drive fut_poll n (in_flight h) w)"
proof (induction n arbitrary: h w)
  case (Suc n)
  show ?case
    using Suc [of "set_slot _ h"]
    by (simp add: poll_is in_flight_def slot_set set_set split: prod.splits poll.splits)
qed simp

end

interpretation open_bidi: cached_poll "poll_open_bidi no_error F" hc_open_bidi_fut
    "\<lambda>h. cf_open_bidirectional F (hc_inner h)" "cf_poll_bidi F"
    "map_sum (\<lambda>_. stream_error no_error) h3_bidi_new" "\<lambda>f h. h\<lparr>hc_open_bidi_fut := f\<rparr>"
  for no_error F
  by unfold_locales
    (simp_all add: poll_open_bidi_def Let_def Option.is_none_def split: option.split prod.split poll.split sum.split)

interpretation open_send: cached_poll "poll_open_send no_error F" hc_open_uni_fut
    "\<lambda>h. cf_open_unidirectional F (hc_inner h)" "cf_poll_send F"
    "map_sum (\<lambda>_. stream_error no_error) h3_send_new" "\<lambda>f h. h\<lparr>hc_open_uni_fut := f\<rparr>"
  for no_error F
  by unfold_locales
    (simp_all add: poll_open_send_def Let_def Option.is_none_def split: option.split prod.split poll.split sum.split)

interpretation accept_bidi: cached_poll "poll_accept_bidi no_error F" hc_accept_bidi_fut
    "\<lambda>h. cf_accept_bidirectional F (hc_inner h)" "cf_poll_bidi F"
    "map_sum (\<lambda>_. conn_closed no_error) h3_bidi_new" "\<lambda>f h. h\<lparr>hc_accept_bidi_fut := f\<rparr>"
  for no_error F
  by unfold_locales
    (simp_all add: poll_accept_bidi_def Let_def Option.is_none_def split: option.split prod.split poll.split sum.split)

interpretation accept_recv: cached_poll "poll_accept_recv no_error F" hc_accept_uni_fut
    "\<lambda>h. cf_accept_unidirectional F (hc_inner h)" "cf_poll_recv F"
    "map_sum (\<lambda>_. conn_closed no_error) h3_recv_new" "\<lambda>f h. h\<lparr>hc_accept_uni_fut := f\<rparr>"
  for no_error F
  by unfold_locales
    (simp_all add: poll_accept_recv_def Let_def Option.is_none_def split: option.split prod.split poll.split sum.split)

text \<open>
  C33: Polling the adapter to open a bidirectional stream runs one future of the connection to its
  end: pending answers never start a second one or lose the first, the stream arrives wrapped
  with an empty send buffer (any error as the synthetic close), and afterwards the slot is free.
\<close>

theorem open_bidi_drives_one_future:
  "op_drive (poll_open_bidi no_error F) n (h3_connection_new conn) w =
     map_option
       (\<lambda>(r, w'). (map_sum (\<lambda>_. ConnectionErrorIncoming (ApplicationClose no_error))
                     (\<lambda>stream. \<lparr>hb_inner = stream, hb_send_buf = []\<rparr>) r,
                   h3_connection_new conn, w'))
       (fut_drive (cf_poll_bidi F) n (cf_open_bidirectional F conn) w)"
  unfolding open_bidi.drive
  by (simp add: open_bidi.in_flight_def h3_connection_new_def stream_error_def conn_closed_def
      h3_bidi_new_def [abs_def])

text \<open>
  The four polls of one connection do not disturb each other: with an accept in flight, polling
  to open a stream to its end leaves the accept in flight as it was, and a clone (what
  \<open>opener\<close> gives out) starts with no future in flight while the original keeps its own.
\<close>

theorem accept_survives_open:
  assumes "op_drive (poll_open_send no_error F) n h w = Some (r, h', w')"
  shows "hc_accept_bidi_fut h' = hc_accept_bidi_fut h \<and> hc_accept_uni_fut h' = hc_accept_uni_fut h \<and>
     hc_open_bidi_fut h' = hc_open_bidi_fut h \<and> hc_open_uni_fut h' = None \<and>
     h3_opener h' = h3_connection_new (hc_inner h)"
  using assms unfolding open_send.drive
  by (auto simp: h3_opener_def h3_connection_clone_def h3_connection_new_def)

definition sample_futures :: "(nat, nat, nat, nat, nat, nat, nat, nat, nat) conn_futures" where
  "sample_futures =
     \<lparr>cf_open_bidirectional = (\<lambda>c. 2), cf_open_unidirectional = (\<lambda>c. 1),
      cf_accept_bidirectional = (\<lambda>c. 3), cf_accept_unidirectional = (\<lambda>c. 4),
      cf_poll_bidi = (\<lambda>f w. if f = 0 then (Ready (Inr w), f, w) else (Pending, f - 1, w + 1)),
      cf_poll_send = (\<lambda>f w. if f = 0 then (Ready (Inr w), f, w) else (Pending, f - 1, w + 1)),
      cf_poll_recv = (\<lambda>f w. if f = 0 then (Ready (Inr w), f, w) else (Pending, f - 1, w + 1))\<rparr>"

theorem accept_survives_open_witness:
  "hc_accept_bidi_fut ((h3_connection_new 7)\<lparr>hc_accept_bidi_fut := Some 3, hc_open_uni_fut := None\<rparr>) = Some (3::nat)"
proof -
  let ?h = "(h3_connection_new (7::nat))\<lparr>hc_accept_bidi_fut := Some 3\<rparr>"
  have "op_drive (poll_open_send 0 sample_futures) 2 ?h 0 =
      Some (Inr (h3_send_new 1), ?h\<lparr>hc_open_uni_fut := None\<rparr>, 1)"
    by (simp add: eval_nat_numeral poll_open_send_def sample_futures_def h3_connection_new_def Let_def)
  from accept_survives_open [OF this] show ?thesis by (simp add: h3_connection_new_def)
qed

end
