(* ===== verification/H3Streams.thy ===== *)
theory H3Streams
  imports H3Adapter
begin

text \<open>
  The stream half of the HTTP/3 adapter (\<open>navar-h3/src/adapter.rs\<close>): buffered writing,
  reading in pieces of at most 4096 bytes, stream identifiers and splitting.
\<close>

section \<open>The send stream\<close>

text \<open>
  \<open>while !self.buf.is_empty()\<close>: \<open>None\<close> when the loop never ends (a writer that keeps
  taking nothing) or \<open>advance\<close> panics (a writer that claims more than it was offered).
\<close>

partial_function (option) send_poll_ready ::
  "64 word \<Rightarrow> ('s, 'e) async_write \<Rightarrow> 's h3_send_stream \<Rightarrow>
   ((h3_stream_error + unit) poll \<times> 's h3_send_stream) option" where
  "send_poll_ready no_error W s =
     (if hs_buf s = [] then Some (Ready (Inr ()), s)
      else case poll_write W (hs_buf s) (hs_inner s) of
          (Ready (Inr n), inner) \<Rightarrow>
            if n \<le> length (hs_buf s)
            then send_poll_ready no_error W (s\<lparr>hs_inner := inner, hs_buf := drop n (hs_buf s)\<rparr>)
            else None
        | (Ready (Inl _), inner) \<Rightarrow> Some (Ready (Inl (stream_error no_error)), s\<lparr>hs_inner := inner\<rparr>)
        | (Pending, inner) \<Rightarrow> Some (Pending, s\<lparr>hs_inner := inner\<rparr>))"

text \<open>The loop of \<open>send_data\<close> over the converted buffer.\<close>

partial_function (option) send_fill :: "'b buf \<Rightarrow> 'b \<Rightarrow> byte list \<Rightarrow> byte list option" where
  "send_fill B data buf =
     (if 0 < buf_remaining B data
      then send_fill B (snd (buf_copy_to_bytes B (buf_remaining B data) data))
             (buf @ fst (buf_copy_to_bytes B (buf_remaining B data) data))
      else Some buf)"

definition send_data ::
  "'b buf \<Rightarrow> ('d \<Rightarrow> 'b) \<Rightarrow> 'd \<Rightarrow> 's h3_send_stream \<Rightarrow> ((h3_stream_error + unit) \<times> 's h3_send_stream) option" where
  "send_data B into data s =
     map_option (\<lambda>buf. (Inr (), s\<lparr>hs_buf := buf\<rparr>)) (send_fill B (into data) (hs_buf s))"

definition send_poll_finish ::
  "64 word \<Rightarrow> ('s, 'e) async_write \<Rightarrow> 's h3_send_stream \<Rightarrow>
   ((h3_stream_error + unit) poll \<times> 's h3_send_stream) option" where
  "send_poll_finish no_error W s =
     (case send_poll_ready no_error W s of
        None \<Rightarrow> None
      | Some (Ready (Inl e), s') \<Rightarrow> Some (Ready (Inl e), s')
      | Some (Pending, s') \<Rightarrow> Some (Pending, s')
      | Some (Ready (Inr _), s') \<Rightarrow>
          Some (case poll_flush W (hs_inner s') of
             (Ready (Inr _), inner) \<Rightarrow> (Ready (Inr ()), s'\<lparr>hs_inner := inner\<rparr>)
           | (Ready (Inl _), inner) \<Rightarrow> (Ready (Inl (stream_error no_error)), s'\<lparr>hs_inner := inner\<rparr>)
           | (Pending, inner) \<Rightarrow> (Pending, s'\<lparr>hs_inner := inner\<rparr>)))"

definition send_reset :: "64 word \<Rightarrow> 's h3_send_stream \<Rightarrow> 's h3_send_stream" where
  "send_reset reset_code s = s"

section \<open>The receive stream\<close>

definition recv_poll_data ::
  "64 word \<Rightarrow> ('s, 'e) async_read \<Rightarrow> 's h3_recv_stream \<Rightarrow>
   (h3_stream_error + byte list option) poll \<times> 's h3_recv_stream" where
  "recv_poll_data no_error R s =
     (let buf = replicate 4096 0 in
      case poll_read R buf (hr_inner s) of
        (Ready (Inr n), buf, inner) \<Rightarrow>
          (if n = 0 then (Ready (Inr None), s\<lparr>hr_inner := inner\<rparr>)
           else (Ready (Inr (Some (take n buf))), s\<lparr>hr_inner := inner\<rparr>))
      | (Ready (Inl _), _, inner) \<Rightarrow> (Ready (Inl (stream_error no_error)), s\<lparr>hr_inner := inner\<rparr>)
      | (Pending, _, inner) \<Rightarrow> (Pending, s\<lparr>hr_inner := inner\<rparr>))"

definition recv_stop_sending :: "64 word \<Rightarrow> 's h3_recv_stream \<Rightarrow> 's h3_recv_stream" where
  "recv_stop_sending error_code s = s"

text \<open>
  \<open>try_from\<close> is \<open>h3::quic::StreamId::try_from\<close>. The one-way streams fall back to the
  identifier 0, the bidirectional one unwraps: \<open>None\<close> is the panic.
\<close>

fun ok_option :: "'e + 'a \<Rightarrow> 'a option" where
  "ok_option (Inl e) = None"
| "ok_option (Inr a) = Some a"

definition recv_id ::
  "(64 word \<Rightarrow> 'e + 'id) \<Rightarrow> ('s, 'send, 'recv) bidi_stream \<Rightarrow> 's h3_recv_stream \<Rightarrow> 'id option" where
  "recv_id try_from S s =
     (case try_from (stream_id S (hr_inner s)) of Inr i \<Rightarrow> Some i | Inl _ \<Rightarrow> ok_option (try_from 0))"

definition send_id ::
  "(64 word \<Rightarrow> 'e + 'id) \<Rightarrow> ('s, 'send, 'recv) bidi_stream \<Rightarrow> 's h3_send_stream \<Rightarrow> 'id option" where
  "send_id try_from S s =
     (case try_from (stream_id S (hs_inner s)) of Inr i \<Rightarrow> Some i | Inl _ \<Rightarrow> ok_option (try_from 0))"

section \<open>The bidirectional stream\<close>

partial_function (option) bidi_poll_ready ::
  "64 word \<Rightarrow> ('s, 'e) async_write \<Rightarrow> 's h3_bidi_stream \<Rightarrow>
   ((h3_stream_error + unit) poll \<times> 's h3_bidi_stream) option" where
  "bidi_poll_ready no_error W s =
     (if hb_send_buf s = [] then Some (Ready (Inr ()), s)
      else case poll_write W (hb_send_buf s) (hb_inner s) of
          (Ready (Inr n), inner) \<Rightarrow>
            if n \<le> length (hb_send_buf s)
            then bidi_poll_ready no_error W (s\<lparr>hb_inner := inner, hb_send_buf := drop n (hb_send_buf s)\<rparr>)
            else None
        | (Ready (Inl _), inner) \<Rightarrow> Some (Ready (Inl (stream_error no_error)), s\<lparr>hb_inner := inner\<rparr>)
        | (Pending, inner) \<Rightarrow> Some (Pending, s\<lparr>hb_inner := inner\<rparr>))"

definition bidi_send_data ::
  "'b buf \<Rightarrow> ('d \<Rightarrow> 'b) \<Rightarrow> 'd \<Rightarrow> 's h3_bidi_stream \<Rightarrow> ((h3_stream_error + unit) \<times> 's h3_bidi_stream) option" where
  "bidi_send_data B into data s =
     map_option (\<lambda>buf. (Inr (), s\<lparr>hb_send_buf := buf\<rparr>)) (send_fill B (into data) (hb_send_buf s))"

definition bidi_poll_finish ::
  "64 word \<Rightarrow> ('s, 'e) async_write \<Rightarrow> 's h3_bidi_stream \<Rightarrow>
   ((h3_stream_error + unit) poll \<times> 's h3_bidi_stream) option" where
  "bidi_poll_finish no_error W s =
     (case bidi_poll_ready no_error W s of
        None \<Rightarrow> None
      | Some (Ready (Inl e), s') \<Rightarrow> Some (Ready (Inl e), s')
      | Some (Pending, s') \<Rightarrow> Some (Pending, s')
      | Some (Ready (Inr _), s') \<Rightarrow>
          Some (case poll_flush W (hb_inner s') of
             (Ready (Inr _), inner) \<Rightarrow> (Ready (Inr ()), s'\<lparr>hb_inner := inner\<rparr>)
           | (Ready (Inl _), inner) \<Rightarrow> (Ready (Inl (stream_error no_error)), s'\<lparr>hb_inner := inner\<rparr>)
           | (Pending, inner) \<Rightarrow> (Pending, s'\<lparr>hb_inner := inner\<rparr>)))"

definition bidi_poll_data ::
  "64 word \<Rightarrow> ('s, 'e) async_read \<Rightarrow> 's h3_bidi_stream \<Rightarrow>
   (h3_stream_error + byte list option) poll \<times> 's h3_bidi_stream" where
  "bidi_poll_data no_error R s =
     (let buf = replicate 4096 0 in
      case poll_read R buf (hb_inner s) of
        (Ready (Inr n), buf, inner) \<Rightarrow>
          (if n = 0 then (Ready (Inr None), s\<lparr>hb_inner := inner\<rparr>)
           else (Ready (Inr (Some (take n buf))), s\<lparr>hb_inner := inner\<rparr>))
      | (Ready (Inl _), _, inner) \<Rightarrow> (Ready (Inl (stream_error no_error)), s\<lparr>hb_inner := inner\<rparr>)
      | (Pending, _, inner) \<Rightarrow> (Pending, s\<lparr>hb_inner := inner\<rparr>))"

definition bidi_stop_sending :: "64 word \<Rightarrow> 's h3_bidi_stream \<Rightarrow> 's h3_bidi_stream" where
  "bidi_stop_sending error_code s = s"

definition bidi_reset :: "64 word \<Rightarrow> 's h3_bidi_stream \<Rightarrow> 's h3_bidi_stream" where
  "bidi_reset reset_code s = s"

definition bidi_recv_id ::
  "(64 word \<Rightarrow> 'e + 'id) \<Rightarrow> ('s, 'send, 'recv) bidi_stream \<Rightarrow> 's h3_bidi_stream \<Rightarrow> 'id option" where
  "bidi_recv_id try_from S s = ok_option (try_from (stream_id S (hb_inner s)))"

definition bidi_send_id ::
  "(64 word \<Rightarrow> 'e + 'id) \<Rightarrow> ('s, 'send, 'recv) bidi_stream \<Rightarrow> 's h3_bidi_stream \<Rightarrow> 'id option" where
  "bidi_send_id try_from S s = ok_option (try_from (stream_id S (hb_inner s)))"

definition h3_split ::
  "('s, 'send, 'recv) bidi_stream \<Rightarrow> 's h3_bidi_stream \<Rightarrow> 'send h3_send_stream \<times> 'recv h3_recv_stream" where
  "h3_split S s = (case bidi_split S (hb_inner s) of (send, recv) \<Rightarrow> (h3_send_new send, h3_recv_new recv))"

section \<open>Draining the send buffer\<close>

definition as_send :: "'s h3_bidi_stream \<Rightarrow> 's h3_send_stream" where
  "as_send s = \<lparr>hs_inner = hb_inner s, hs_buf = hb_send_buf s\<rparr>"

definition as_bidi :: "'s h3_send_stream \<Rightarrow> 's h3_bidi_stream" where
  "as_bidi s = \<lparr>hb_inner = hs_inner s, hb_send_buf = hs_buf s\<rparr>"

context nonzero_writer
begin

text \<open>The loop ends: every write takes at least one byte of the buffer.\<close>

lemma poll_ready_returns: "\<exists>r s'. send_poll_ready no_error W s = Some (r, s')"
proof (induction "length (hs_buf s)" arbitrary: s rule: less_induct)
  case less
  obtain p inner where w: "poll_write W (hs_buf s) (hs_inner s) = (p, inner)" by fastforce
  consider "hs_buf s = []" | n where "hs_buf s \<noteq> []" "p = Ready (Inr n)"
    | "hs_buf s \<noteq> []" "\<And>n. p \<noteq> Ready (Inr n)" by blast
  then show ?case
  proof cases
    case 1
    then show ?thesis by (simp add: send_poll_ready.simps [of no_error W s])
  next
    case 2
    have "n \<le> length (hs_buf s)" and "0 < n"
      using write_bound write_nonzero w 2 by blast+
    then show ?thesis
      using less [of "s\<lparr>hs_inner := inner, hs_buf := drop n (hs_buf s)\<rparr>"] 2 w
      by (simp add: send_poll_ready.simps [of no_error W s])
  next
    case 3
    then show ?thesis using w
      by (cases p) (auto simp: send_poll_ready.simps [of no_error W s] split: sum.splits)
  qed
qed

end

context recording_writer
begin

text \<open>Nothing is lost, doubled or reordered between the buffer and the transport.\<close>

lemma poll_ready_keeps:
  assumes "send_poll_ready no_error W s = Some (r, s')"
  shows "written (hs_inner s') @ hs_buf s' = written (hs_inner s) @ hs_buf s \<and>
     (r = Ready (Inr ()) \<longrightarrow> hs_buf s' = [])"
  using assms
proof (induction "length (hs_buf s)" arbitrary: s rule: less_induct)
  case less
  obtain p inner where w: "poll_write W (hs_buf s) (hs_inner s) = (p, inner)" by fastforce
  consider "hs_buf s = []" | n where "hs_buf s \<noteq> []" "p = Ready (Inr n)"
    | e where "hs_buf s \<noteq> []" "p = Ready (Inl e)" | "hs_buf s \<noteq> []" "p = Pending"
    by (cases p; cases "hs_buf s = []") (auto, metis sum.exhaust)
  then show ?case
  proof cases
    case 1
    with less.prems show ?thesis by (auto simp: send_poll_ready.simps [of no_error W s])
  next
    case 2
    let ?s1 = "s\<lparr>hs_inner := inner, hs_buf := drop n (hs_buf s)\<rparr>"
    have n: "n \<le> length (hs_buf s)" "0 < n" "written inner = written (hs_inner s) @ take n (hs_buf s)"
      using write_bound write_nonzero write_ok w 2 by blast+
    then have "send_poll_ready no_error W ?s1 = Some (r, s')"
      using less.prems 2 w by (simp add: send_poll_ready.simps [of no_error W s])
    from less.hyps [OF _ this] n 2 show ?thesis by simp
  next
    case 3
    with less.prems w write_err show ?thesis
      by (auto simp: send_poll_ready.simps [of no_error W s])
  next
    case 4
    with less.prems w write_pending show ?thesis
      by (auto simp: send_poll_ready.simps [of no_error W s])
  qed
qed

end

context buf_laws
begin

lemma send_fill_content: "send_fill B data buf = Some (buf @ content data)"
proof (cases "0 < buf_remaining B data")
  case True
  obtain taken rest where copy: "buf_copy_to_bytes B (buf_remaining B data) data = (taken, rest)"
    by fastforce
  then have "taken = content data" and "content rest = []"
    using copy_content [of "buf_remaining B data" data] copy_rest [of "buf_remaining B data" data]
    by (simp_all add: remaining_content)
  then have "send_fill B rest (buf @ taken) = Some (buf @ content data)"
    by (simp add: send_fill.simps [of B rest] remaining_content)
  then show ?thesis using True copy by (simp add: send_fill.simps [of B data])
next
  case False
  then show ?thesis by (simp add: send_fill.simps [of B data] remaining_content)
qed

end

section \<open>Sequences of operations on a send stream\<close>

lemma append_cong3: "a @ b = c @ d \<Longrightarrow> a @ b @ x = c @ d @ x"
  by (metis append_assoc)

datatype 'd send_op = SendData 'd | PollReady | PollFinish

fun send_run ::
  "64 word \<Rightarrow> 'b buf \<Rightarrow> ('d \<Rightarrow> 'b) \<Rightarrow> ('s, 'e) async_write \<Rightarrow> 'd send_op list \<Rightarrow> 's h3_send_stream \<Rightarrow>
   's h3_send_stream option" where
  "send_run no_error B into W [] s = Some s"
| "send_run no_error B into W (SendData d # ops) s =
     (case send_data B into d s of None \<Rightarrow> None | Some (_, s') \<Rightarrow> send_run no_error B into W ops s')"
| "send_run no_error B into W (PollReady # ops) s =
     (case send_poll_ready no_error W s of None \<Rightarrow> None | Some (_, s') \<Rightarrow> send_run no_error B into W ops s')"
| "send_run no_error B into W (PollFinish # ops) s =
     (case send_poll_finish no_error W s of None \<Rightarrow> None | Some (_, s') \<Rightarrow> send_run no_error B into W ops s')"

fun sent_data :: "('d \<Rightarrow> byte list) \<Rightarrow> 'd send_op list \<Rightarrow> byte list" where
  "sent_data c [] = []"
| "sent_data c (SendData d # ops) = c d @ sent_data c ops"
| "sent_data c (_ # ops) = sent_data c ops"

context recording_writer
begin

lemma poll_finish_keeps:
  "\<exists>r s'. send_poll_finish no_error W s = Some (r, s') \<and>
     written (hs_inner s') @ hs_buf s' = written (hs_inner s) @ hs_buf s \<and>
     (r = Ready (Inr ()) \<longrightarrow> hs_buf s' = [])"
proof -
  obtain r s1 where ready: "send_poll_ready no_error W s = Some (r, s1)"
    using poll_ready_returns by blast
  note keeps = poll_ready_keeps [OF ready]
  obtain q i where flush: "poll_flush W (hs_inner s1) = (q, i)" by fastforce
  then have "written i = written (hs_inner s1)" using flush_written [of "hs_inner s1"] by simp
  then show ?thesis using ready keeps flush
    by (auto simp: send_poll_finish_def split: poll.splits sum.splits)
qed

lemma send_run_keeps:
  assumes "buf_laws B content"
  shows "\<exists>s'. send_run no_error B into W ops s = Some s' \<and>
     written (hs_inner s') @ hs_buf s' = written (hs_inner s) @ hs_buf s @ sent_data (\<lambda>d. content (into d)) ops"
proof (induction ops arbitrary: s)
  case (Cons op ops)
  show ?case
  proof (cases op)
    case (SendData d)
    have "send_data B into d s = Some (Inr (), s\<lparr>hs_buf := hs_buf s @ content (into d)\<rparr>)"
      by (simp add: send_data_def buf_laws.send_fill_content [OF assms])
    then show ?thesis
      using Cons [of "s\<lparr>hs_buf := hs_buf s @ content (into d)\<rparr>"] SendData by simp
  next
    case PollReady
    obtain r s1 where "send_poll_ready no_error W s = Some (r, s1)"
      using poll_ready_returns by blast
    moreover from poll_ready_keeps [OF this]
    have "written (hs_inner s1) @ hs_buf s1 = written (hs_inner s) @ hs_buf s" by blast
    ultimately show ?thesis using Cons [of s1] PollReady append_cong3 by fastforce
  next
    case PollFinish
    obtain r s1 where "send_poll_finish no_error W s = Some (r, s1)"
        "written (hs_inner s1) @ hs_buf s1 = written (hs_inner s) @ hs_buf s"
      using poll_finish_keeps [of no_error s] by blast
    then show ?thesis using Cons [of s1] PollFinish append_cong3 by fastforce
  qed
qed simp

end

section \<open>Properties of the send stream\<close>

text \<open>
  C7: Whatever calls of \<open>send_data\<close>, \<open>poll_ready\<close> and \<open>poll_finish\<close> are made on a send stream, in any
  order and with a transport that takes as little as it likes or fails in between, every call
  returns, and the bytes the transport has taken followed by those still buffered are exactly
  the data handed in, in order.
\<close>

theorem send_stream_integrity:
  assumes "recording_writer W written" and "buf_laws B content"
  shows "\<exists>s'. send_run no_error B into W ops (h3_send_new inner) = Some s' \<and>
     written (hs_inner s') @ hs_buf s' = written inner @ sent_data (\<lambda>d. content (into d)) ops"
  using recording_writer.send_run_keeps [OF assms, of no_error into ops "h3_send_new inner"]
  by (simp add: h3_send_new_def)

theorem send_stream_integrity_witness:
  "\<exists>s'. send_run 256 rope_buf (\<lambda>d. d) (pipe_write 1 :: (pipe, nat) async_write)
       [SendData [[1, 2], [3]], PollReady, SendData [[4]], PollFinish]
       (h3_send_new \<lparr>pipe_out = [], pipe_in = [], pipe_pending = 1\<rparr>) = Some s' \<and>
     pipe_out (hs_inner s') @ hs_buf s' =
       pipe_out \<lparr>pipe_out = [], pipe_in = [], pipe_pending = 1\<rparr> @
       sent_data (\<lambda>d. concat d) [SendData [[1, 2], [3]], PollReady, SendData [[4]], PollFinish]"
  by (rule send_stream_integrity [OF pipe_w.recording_writer_axioms rope.buf_laws_axioms])

text \<open>
  \<open>poll_finish\<close> that reports success has handed over everything: the buffer is empty and the
  transport has taken all that was buffered.
\<close>

theorem finish_flushes_everything:
  assumes "recording_writer W written" and "send_poll_finish no_error W s = Some (Ready (Inr ()), s')"
  shows "hs_buf s' = [] \<and> written (hs_inner s') = written (hs_inner s) @ hs_buf s"
  using recording_writer.poll_finish_keeps [OF assms(1), of no_error s] assms(2) by auto

theorem finish_flushes_everything_witness:
  "\<exists>s'. send_poll_finish 256 (pipe_write 1 :: (pipe, nat) async_write)
       \<lparr>hs_inner = \<lparr>pipe_out = [7], pipe_in = [], pipe_pending = 0\<rparr>, hs_buf = [8]\<rparr> =
       Some (Ready (Inr ()), s') \<and> hs_buf s' = [] \<and> pipe_out (hs_inner s') = [7] @ [8]"
proof -
  let ?s = "\<lparr>hs_inner = \<lparr>pipe_out = [7], pipe_in = [], pipe_pending = 0\<rparr>, hs_buf = [8]\<rparr>"
  have "send_poll_finish 256 (pipe_write 1 :: (pipe, nat) async_write) ?s =
      Some (Ready (Inr ()), \<lparr>hs_inner = \<lparr>pipe_out = [7, 8], pipe_in = [], pipe_pending = 0\<rparr>, hs_buf = []\<rparr>)"
    by (simp add: send_poll_finish_def send_poll_ready.simps pipe_write_def)
  from this finish_flushes_everything [OF pipe_w.recording_writer_axioms this] show ?thesis by simp
qed

text \<open>The loop looks at the transport only through \<open>poll_write\<close>.\<close>

lemma send_poll_ready_cong_Some:
  assumes "send_poll_ready no_error W s = Some r" and "poll_write W' = poll_write W"
  shows "send_poll_ready no_error W' s = Some r"
proof -
  have "\<forall>V. poll_write V = poll_write W \<longrightarrow> send_poll_ready no_error V s = Some r"
  proof (rule send_poll_ready.raw_induct
      [where P = "\<lambda>n W s r. \<forall>V. poll_write V = poll_write W \<longrightarrow> send_poll_ready n V s = Some r",
       OF _ assms(1)])
    fix f n s r and W :: "('a, 'b) async_write"
    assume IH: "\<And>n W s r. f n W s = Some r \<Longrightarrow>
        \<forall>V. poll_write V = poll_write W \<longrightarrow> send_poll_ready n V s = Some r"
      and eq: "(if hs_buf s = [] then Some (Ready (Inr ()), s)
        else case poll_write W (hs_buf s) (hs_inner s) of
          (Pending, inner) \<Rightarrow> Some (Pending, s\<lparr>hs_inner := inner\<rparr>)
        | (Ready (Inl _), inner) \<Rightarrow> Some (Ready (Inl (stream_error n)), s\<lparr>hs_inner := inner\<rparr>)
        | (Ready (Inr k), inner) \<Rightarrow>
            if k \<le> length (hs_buf s)
            then f n W (s\<lparr>hs_inner := inner, hs_buf := drop k (hs_buf s)\<rparr>) else None) = Some r"
    show "\<forall>V. poll_write V = poll_write W \<longrightarrow> send_poll_ready n V s = Some r"
    proof (intro allI impI)
      fix V :: "('a, 'b) async_write"
      assume "poll_write V = poll_write W"
      then show "send_poll_ready n V s = Some r"
        using eq IH by (subst send_poll_ready.simps)
          (auto split: if_splits prod.splits poll.splits sum.splits)
    qed
  qed
  with assms(2) show ?thesis by blast
qed

lemma send_poll_ready_cong:
  assumes "poll_write W' = poll_write W"
  shows "send_poll_ready no_error W' s = send_poll_ready no_error W s"
  using send_poll_ready_cong_Some [OF _ assms] send_poll_ready_cong_Some [OF _ assms [symmetric]]
  by (metis option.exhaust)

text \<open>
  \<open>poll_finish\<close> never closes the write half: it behaves the same whatever \<open>poll_close\<close> of the
  transport does, so the peer is not told that the data has ended.
\<close>

theorem finish_never_closes:
  "send_poll_finish no_error (W\<lparr>poll_close := c\<rparr>) s = send_poll_finish no_error W s"
  using send_poll_ready_cong [of "W\<lparr>poll_close := c\<rparr>" W no_error s]
  by (simp add: send_poll_finish_def split: option.split prod.split poll.split sum.split)

section \<open>The bidirectional stream writes as a send stream\<close>

lemma as_bidi_simps [simp]:
  "hb_inner (as_bidi s) = hs_inner s" "hb_send_buf (as_bidi s) = hs_buf s"
  "hs_inner (as_send t) = hb_inner t" "hs_buf (as_send t) = hb_send_buf t"
  "as_send (as_bidi s) = s" "as_bidi (as_send t) = t"
  "as_bidi (s\<lparr>hs_inner := i\<rparr>) = (as_bidi s)\<lparr>hb_inner := i\<rparr>"
  "as_bidi (s\<lparr>hs_buf := b\<rparr>) = (as_bidi s)\<lparr>hb_send_buf := b\<rparr>"
  "as_send (t\<lparr>hb_inner := i\<rparr>) = (as_send t)\<lparr>hs_inner := i\<rparr>"
  "as_send (t\<lparr>hb_send_buf := b\<rparr>) = (as_send t)\<lparr>hs_buf := b\<rparr>"
  by (simp_all add: as_bidi_def as_send_def)

lemma bidi_poll_ready_from_send:
  assumes "send_poll_ready no_error W s = Some r"
  shows "bidi_poll_ready no_error W (as_bidi s) = Some (map_prod id as_bidi r)"
proof (rule send_poll_ready.raw_induct
    [where P = "\<lambda>n W s r. bidi_poll_ready n W (as_bidi s) = Some (map_prod id as_bidi r)",
     OF _ assms])
  fix f n s r and W :: "('a, 'b) async_write"
  assume IH: "\<And>n W s r. f n W s = Some r \<Longrightarrow>
      bidi_poll_ready n W (as_bidi s) = Some (map_prod id as_bidi r)"
    and eq: "(if hs_buf s = [] then Some (Ready (Inr ()), s)
      else case poll_write W (hs_buf s) (hs_inner s) of
        (Pending, inner) \<Rightarrow> Some (Pending, s\<lparr>hs_inner := inner\<rparr>)
      | (Ready (Inl _), inner) \<Rightarrow> Some (Ready (Inl (stream_error n)), s\<lparr>hs_inner := inner\<rparr>)
      | (Ready (Inr k), inner) \<Rightarrow>
          if k \<le> length (hs_buf s)
          then f n W (s\<lparr>hs_inner := inner, hs_buf := drop k (hs_buf s)\<rparr>) else None) = Some r"
  show "bidi_poll_ready n W (as_bidi s) = Some (map_prod id as_bidi r)"
    using eq IH [of n W "s\<lparr>hs_inner := _, hs_buf := _\<rparr>"]
    by (subst bidi_poll_ready.simps) (auto split: if_splits prod.splits poll.splits sum.splits)
qed

lemma send_poll_ready_from_bidi:
  assumes "bidi_poll_ready no_error W t = Some r"
  shows "send_poll_ready no_error W (as_send t) = Some (map_prod id as_send r)"
proof (rule bidi_poll_ready.raw_induct
    [where P = "\<lambda>n W t r. send_poll_ready n W (as_send t) = Some (map_prod id as_send r)",
     OF _ assms])
  fix f n t r and W :: "('a, 'b) async_write"
  assume IH: "\<And>n W t r. f n W t = Some r \<Longrightarrow>
      send_poll_ready n W (as_send t) = Some (map_prod id as_send r)"
    and eq: "(if hb_send_buf t = [] then Some (Ready (Inr ()), t)
      else case poll_write W (hb_send_buf t) (hb_inner t) of
        (Pending, inner) \<Rightarrow> Some (Pending, t\<lparr>hb_inner := inner\<rparr>)
      | (Ready (Inl _), inner) \<Rightarrow> Some (Ready (Inl (stream_error n)), t\<lparr>hb_inner := inner\<rparr>)
      | (Ready (Inr k), inner) \<Rightarrow>
          if k \<le> length (hb_send_buf t)
          then f n W (t\<lparr>hb_inner := inner, hb_send_buf := drop k (hb_send_buf t)\<rparr>) else None) = Some r"
  show "send_poll_ready n W (as_send t) = Some (map_prod id as_send r)"
    using eq IH [of n W "t\<lparr>hb_inner := _, hb_send_buf := _\<rparr>"]
    by (subst send_poll_ready.simps) (auto split: if_splits prod.splits poll.splits sum.splits)
qed

lemma bidi_poll_ready_as_send:
  "bidi_poll_ready no_error W t =
     map_option (map_prod id as_bidi) (send_poll_ready no_error W (as_send t))"
  using bidi_poll_ready_from_send [of no_error W "as_send t"]
    send_poll_ready_from_bidi [of no_error W t]
  by (cases "bidi_poll_ready no_error W t"; cases "send_poll_ready no_error W (as_send t)") auto

text \<open>
  Writing on a bidirectional stream is writing on a send stream over the same transport
  stream with the same buffer: \<open>poll_ready\<close>, \<open>send_data\<close> and \<open>poll_finish\<close> give the same answers, leave
  the same transport state and buffer, and fail to return in the same cases.
\<close>

theorem bidi_writes_as_send:
  "bidi_poll_ready no_error W t =
     map_option (map_prod id as_bidi) (send_poll_ready no_error W (as_send t)) \<and>
   bidi_send_data B into d t = map_option (map_prod id as_bidi) (send_data B into d (as_send t)) \<and>
   bidi_poll_finish no_error W t =
     map_option (map_prod id as_bidi) (send_poll_finish no_error W (as_send t))"
  by (auto simp: bidi_send_data_def send_data_def bidi_poll_finish_def send_poll_finish_def
      bidi_poll_ready_as_send option.map_comp comp_def split: option.split prod.split poll.split sum.split)

section \<open>Reading\<close>

text \<open>
  C34: A piece read from a stream is never empty, never longer than 4096 bytes, and is exactly the
  next bytes of the transport stream: with what is still to come it makes up what was to come
  before. A poll that is not ready, or fails, takes nothing.
\<close>

theorem recv_pieces_exact:
  assumes "lawful_reader R incoming" and "recv_poll_data no_error R s = (p, s')"
  shows "incoming (hr_inner s) = (case p of Ready (Inr (Some d)) \<Rightarrow> d | _ \<Rightarrow> []) @ incoming (hr_inner s') \<and>
    (\<forall>d. p = Ready (Inr (Some d)) \<longrightarrow> d \<noteq> [] \<and> length d \<le> 4096) \<and>
    (p = Ready (Inr None) \<longrightarrow> incoming (hr_inner s) = [])"
proof -
  define buf where "buf = replicate 4096 (0 :: byte)"
  then have buf: "length buf = 4096" "buf \<noteq> []" by auto
  obtain q buf' inner where read: "poll_read R buf (hr_inner s) = (q, buf', inner)"
    by (metis prod_cases3)
  note laws = lawful_reader.read_ok [OF assms(1)] lawful_reader.read_eof [OF assms(1)]
    lawful_reader.read_err [OF assms(1)] lawful_reader.read_pending [OF assms(1)]
  have poll: "recv_poll_data no_error R s =
      (case q of Ready (Inr n) \<Rightarrow> (Ready (Inr (if n = 0 then None else Some (take n buf'))), s\<lparr>hr_inner := inner\<rparr>)
       | Ready (Inl _) \<Rightarrow> (Ready (Inl (stream_error no_error)), s\<lparr>hr_inner := inner\<rparr>)
       | Pending \<Rightarrow> (Pending, s\<lparr>hr_inner := inner\<rparr>))"
    using read by (simp add: recv_poll_data_def Let_def buf_def split: poll.split sum.split)
  consider n where "q = Ready (Inr n)" | e where "q = Ready (Inl e)" | "q = Pending"
    by (metis poll.exhaust sum.exhaust)
  then show ?thesis
  proof cases
    case (1 n)
    with read have "n \<le> 4096" "length buf' = 4096" "incoming (hr_inner s) = take n buf' @ incoming inner"
      using laws(1) [of buf "hr_inner s" n buf' inner] buf by auto
    moreover have "n = 0 \<Longrightarrow> incoming (hr_inner s) = []"
      using laws(2) [of buf "hr_inner s" buf' inner] read 1 buf by simp
    ultimately show ?thesis using assms(2) poll 1 by (cases "n = 0") auto
  next
    case 2
    then show ?thesis using assms(2) poll laws(3) [of buf "hr_inner s" _ buf' inner] read by auto
  next
    case 3
    then show ?thesis using assms(2) poll laws(4) [of buf "hr_inner s" buf' inner] read by auto
  qed
qed

lemma pipe_recv_poll:
  "recv_poll_data c (pipe_read 1 :: (pipe, nat) async_read)
     \<lparr>hr_inner = \<lparr>pipe_out = [], pipe_in = [1, 2, 3], pipe_pending = 0\<rparr>\<rparr> =
   (Ready (Inr (Some [1, 2])), \<lparr>hr_inner = \<lparr>pipe_out = [], pipe_in = [3], pipe_pending = 0\<rparr>\<rparr>)"
  by (simp add: recv_poll_data_def pipe_read_def Let_def)

theorem recv_pieces_exact_witness:
  "\<exists>d s'. recv_poll_data 0 (pipe_read 1 :: (pipe, nat) async_read)
       \<lparr>hr_inner = \<lparr>pipe_out = [], pipe_in = [1, 2, 3], pipe_pending = 0\<rparr>\<rparr> =
       (Ready (Inr (Some d)), s') \<and> d \<noteq> [] \<and> length d \<le> 4096 \<and> [1, 2, 3] = d @ pipe_in (hr_inner s')"
  using recv_pieces_exact [OF pipe_r.lawful_reader_axioms pipe_recv_poll [of 0]] pipe_recv_poll [of 0]
  by simp

text \<open>
  The identifier of a stream is the transport's wherever \<open>h3\<close> takes it. Where it does not,
  a one-way stream calls itself 0, the identifier of the first request stream, and a
  bidirectional one panics.
\<close>

lemma stream_ids:
  "(\<forall>i. try_from (stream_id S (hs_inner s)) = Inr i \<longrightarrow> send_id try_from S s = Some i) \<and>
   (\<forall>i. try_from (stream_id S (hr_inner r)) = Inr i \<longrightarrow> recv_id try_from S r = Some i) \<and>
   (\<forall>i. try_from (stream_id S (hb_inner b)) = Inr i \<longrightarrow>
      bidi_send_id try_from S b = Some i \<and> bidi_recv_id try_from S b = Some i) \<and>
   (\<forall>e z. try_from (stream_id S (hs_inner s)) = Inl e \<and> try_from 0 = Inr z \<longrightarrow>
      send_id try_from S s = Some z) \<and>
   (\<forall>e. try_from (stream_id S (hb_inner b)) = Inl e \<longrightarrow> bidi_send_id try_from S b = None)"
  by (auto simp: send_id_def recv_id_def bidi_send_id_def bidi_recv_id_def)

text \<open>
  Splitting a bidirectional stream forgets what is buffered: the halves do not depend on the
  buffer, and the send half starts with an empty one.
\<close>

theorem split_drops_buffer:
  "h3_split S (s\<lparr>hb_send_buf := b\<rparr>) = h3_split S s \<and> hs_buf (fst (h3_split S s)) = []"
  by (simp add: h3_split_def h3_send_new_def split: prod.split)

section \<open>A writer that takes nothing\<close>

lemma spin_None:
  assumes "send_poll_ready no_error W s = Some r"
  shows "hs_buf s \<noteq> [] \<longrightarrow> (\<forall>buf i. \<exists>i'. poll_write W buf i = (Ready (Inr 0), i')) \<longrightarrow> False"
proof (rule send_poll_ready.raw_induct
    [where P = "\<lambda>n W s r. hs_buf s \<noteq> [] \<longrightarrow> (\<forall>buf i. \<exists>i'. poll_write W buf i = (Ready (Inr 0), i')) \<longrightarrow> False",
     OF _ assms])
  fix f n s r and W :: "('a, 'b) async_write"
  assume IH: "\<And>n W s r. f n W s = Some r \<Longrightarrow>
      hs_buf s \<noteq> [] \<longrightarrow> (\<forall>buf i. \<exists>i'. poll_write W buf i = (Ready (Inr 0), i')) \<longrightarrow> False"
    and eq: "(if hs_buf s = [] then Some (Ready (Inr ()), s)
      else case poll_write W (hs_buf s) (hs_inner s) of
        (Pending, inner) \<Rightarrow> Some (Pending, s\<lparr>hs_inner := inner\<rparr>)
      | (Ready (Inl _), inner) \<Rightarrow> Some (Ready (Inl (stream_error n)), s\<lparr>hs_inner := inner\<rparr>)
      | (Ready (Inr k), inner) \<Rightarrow>
          if k \<le> length (hs_buf s)
          then f n W (s\<lparr>hs_inner := inner, hs_buf := drop k (hs_buf s)\<rparr>) else None) = Some r"
  show "hs_buf s \<noteq> [] \<longrightarrow> (\<forall>buf i. \<exists>i'. poll_write W buf i = (Ready (Inr 0), i')) \<longrightarrow> False"
  proof (intro impI)
    assume ne: "hs_buf s \<noteq> []" and spin: "\<forall>buf i. \<exists>i'. poll_write W buf i = (Ready (Inr 0), i')"
    then obtain i' where "poll_write W (hs_buf s) (hs_inner s) = (Ready (Inr 0), i')" by blast
    with eq ne have "f n W (s\<lparr>hs_inner := i', hs_buf := hs_buf s\<rparr>) = Some r" by simp
    from IH [OF this] ne spin show False by simp
  qed
qed

text \<open>
  A transport that accepts a write without taking a byte, as a closed writer does, traps
  \<open>poll_ready\<close>: with anything in the buffer the call never returns.
\<close>

theorem poll_ready_spins:
  assumes "\<And>buf i. \<exists>i'. poll_write W buf i = (Ready (Inr 0), i')" and "hs_buf s \<noteq> []"
  shows "send_poll_ready no_error W s = None"
  using spin_None [of no_error W s] assms by (cases "send_poll_ready no_error W s") auto

theorem poll_ready_spins_witness:
  "send_poll_ready 256 \<lparr>poll_write = (\<lambda>buf s. (Ready (Inr 0), s)), poll_flush = (\<lambda>s. (Ready (Inr ()), s)),
       poll_close = (\<lambda>s. (Ready (Inl (1 :: nat)), s))\<rparr> \<lparr>hs_inner = (), hs_buf = [7]\<rparr> = None"
  by (rule poll_ready_spins) simp_all

end
