(* ===== verification/Ndjson.thy ===== *)
theory Ndjson
  imports HttpBody
begin

text \<open>
  \<open>NdjsonStream\<close>, the incremental parser of newline-delimited JSON
  (\<open>src/response_helpers/ndjson.rs\<close>).

  The deserializer \<open>serde_json::from_slice\<close> is a parameter \<open>from_slice\<close>; no law of it
  is needed for the refinement theorem: the stream yields \<open>from_slice\<close> of every complete
  line of the body, in order, whatever the frame boundaries.
\<close>

section \<open>The parser\<close>

record ('body, 'x, 'item) ndjson_stream =
  nd_body :: 'body
  nd_buffer :: "byte list"
  nd_line_buf :: "byte list"
  nd_queue :: "('x error + 'item) list"

definition ndjson_new ::
  "'b buf \<Rightarrow> (('b frame \<Rightarrow> byte list frame) \<Rightarrow> 'normalized \<Rightarrow> 'mapped) \<Rightarrow> ('mapped \<Rightarrow> 'body) \<Rightarrow>
   'normalized \<Rightarrow> ('body, 'x, 'item) ndjson_stream" where
  "ndjson_new B map_frame box_new body =
     (let bytes_body = map_frame (map_data (to_bytes B)) body in
      \<lparr>nd_body = box_new bytes_body, nd_buffer = [], nd_line_buf = [], nd_queue = []\<rparr>)"

fun ndjson_scan ::
  "(byte list \<Rightarrow> 'x + 'item) \<Rightarrow> (byte list \<Rightarrow> nat) \<Rightarrow> nat list \<Rightarrow> nat \<Rightarrow>
   ('body, 'x, 'item) ndjson_stream \<Rightarrow> (nat \<times> ('body, 'x, 'item) ndjson_stream) option" where
  "ndjson_scan from_slice lay [] processed s = Some (processed, s)"
| "ndjson_scan from_slice lay (pos # positions) processed s =
     (if nd_buffer s ! pos = newline then
        (let s0 = s\<lparr>nd_line_buf := []\<rparr> in
         case ring_slice lay (nd_buffer s0) processed pos of
           None \<Rightarrow> None
         | Some buf \<Rightarrow>
             (let result = foreign (from_slice buf) in
              ndjson_scan from_slice lay positions (pos + 1)
                (s0\<lparr>nd_queue := nd_queue s0 @ [result], nd_line_buf := []\<rparr>)))
      else ndjson_scan from_slice lay positions processed s)"

text \<open>\<open>buffer.drain(0..processed)\<close> panics when the range leaves the buffer.\<close>

definition ndjson_append_frame ::
  "(byte list \<Rightarrow> 'x + 'item) \<Rightarrow> 'b buf \<Rightarrow> (byte list \<Rightarrow> nat) \<Rightarrow> 'b \<Rightarrow>
   ('body, 'x, 'item) ndjson_stream \<Rightarrow> ('body, 'x, 'item) ndjson_stream option" where
  "ndjson_append_frame from_slice B lay frame s =
     (let old_len = length (nd_buffer s) in
      case fill B frame (nd_buffer s) of
        None \<Rightarrow> None
      | Some buffer \<Rightarrow>
          (case ndjson_scan from_slice lay [old_len..<length buffer] 0 (s\<lparr>nd_buffer := buffer\<rparr>) of
             None \<Rightarrow> None
           | Some (processed, s') \<Rightarrow>
               (if processed \<le> length (nd_buffer s')
                then Some (s'\<lparr>nd_buffer := drop processed (nd_buffer s')\<rparr>) else None)))"

definition ndjson_poll_next ::
  "(byte list \<Rightarrow> 'x + 'item) \<Rightarrow> ('body \<Rightarrow> (byte list, 'x error) outcome \<times> 'body) \<Rightarrow>
   (byte list \<Rightarrow> nat) \<Rightarrow> ('body, 'x, 'item) ndjson_stream \<Rightarrow>
   (('x error + 'item) option poll \<times> bool \<times> ('body, 'x, 'item) ndjson_stream) option" where
  "ndjson_poll_next from_slice poll_frame lay s =
     (case nd_queue s of
        item # rest \<Rightarrow> Some (Ready (Some item), False, s\<lparr>nd_queue := rest\<rparr>)
      | [] \<Rightarrow>
          (case poll_frame (nd_body s) of
             (Pending, body) \<Rightarrow> Some (Pending, False, s\<lparr>nd_body := body\<rparr>)
           | (Ready frame_result, body) \<Rightarrow>
               (let s1 = s\<lparr>nd_body := body\<rparr> in
                case frame_result of
                  Some (Inr frame) \<Rightarrow>
                    (case into_data frame of
                       Inr data \<Rightarrow>
                         (case ndjson_append_frame from_slice bytes_buf lay data s1 of
                            None \<Rightarrow> None
                          | Some s2 \<Rightarrow>
                              (case nd_queue s2 of
                                 item # rest \<Rightarrow>
                                   Some (Ready (Some item), False, s2\<lparr>nd_queue := rest\<rparr>)
                               | [] \<Rightarrow> Some (Pending, True, s2)))
                     | Inl _ \<Rightarrow> Some (Pending, True, s1))
                | Some (Inl e) \<Rightarrow> Some (Ready (Some (Inl e)), False, s1)
                | None \<Rightarrow> Some (Ready None, False, s1))))"

section \<open>The reference semantics and the refinement\<close>

definition ndjson_reference ::
  "(byte list \<Rightarrow> 'x + 'item) \<Rightarrow> byte list \<Rightarrow> ('x error + 'item) list" where
  "ndjson_reference from_slice bs = map (\<lambda>l. foreign (from_slice l)) (complete_lines bs)"

definition ndjson_on_line ::
  "(byte list \<Rightarrow> 'x + 'item) \<Rightarrow> byte list \<Rightarrow> ('body, 'x, 'item) ndjson_stream \<Rightarrow>
   ('body, 'x, 'item) ndjson_stream" where
  "ndjson_on_line from_slice l s =
     s\<lparr>nd_queue := nd_queue s @ [foreign (from_slice l)], nd_line_buf := []\<rparr>"

interpretation ndjson: line_scanner "ndjson_scan from_slice lay" nd_buffer "ndjson_on_line from_slice"
  for from_slice lay
  by unfold_locales (simp_all add: ring_slice_eq ndjson_on_line_def)

lemma ndjson_fold:
  "nd_queue (fold (ndjson_on_line from_slice) ls s) =
     nd_queue s @ map (\<lambda>l. foreign (from_slice l)) ls"
  "nd_body (fold (ndjson_on_line from_slice) ls s) = nd_body s"
  "nd_buffer (fold (ndjson_on_line from_slice) ls s) = nd_buffer s"
  by (induction ls arbitrary: s) (simp_all add: ndjson_on_line_def)

definition ndjson_tracks :: "('body, 'x, 'item) ndjson_stream \<Rightarrow> byte list \<Rightarrow> bool" where
  "ndjson_tracks s bs \<longleftrightarrow> nd_buffer s = unterminated bs"

definition ndjson_new_items ::
  "(byte list \<Rightarrow> 'x + 'item) \<Rightarrow> byte list \<Rightarrow> byte list \<Rightarrow> ('x error + 'item) list" where
  "ndjson_new_items from_slice bs d =
     map (\<lambda>l. foreign (from_slice l)) (complete_lines (unterminated bs @ d))"

lemma ndjson_reference_append:
  "ndjson_reference from_slice (bs @ d) =
     ndjson_reference from_slice bs @ ndjson_new_items from_slice bs d"
  by (simp add: ndjson_reference_def ndjson_new_items_def complete_lines_append [of bs d])

lemma ndjson_append_correct:
  assumes "buf_laws B content" and tracks: "ndjson_tracks s bs"
  shows "\<exists>s'. ndjson_append_frame from_slice B lay frame s = Some s' \<and>
           ndjson_tracks s' (bs @ content frame) \<and>
           nd_queue s' = nd_queue s @ ndjson_new_items from_slice bs (content frame) \<and>
           nd_body s' = nd_body s"
proof -
  define buf where "buf = unterminated bs @ content frame"
  let ?s0 = "s\<lparr>nd_buffer := buf\<rparr>"
  let ?s1 = "fold (ndjson_on_line from_slice) (complete_lines buf) ?s0"
  note t = tracks [unfolded ndjson_tracks_def]
  have fill: "fill B frame (nd_buffer s) = Some buf"
    by (simp add: t buf_laws.fill_content [OF assms(1)] buf_def)
  have scan: "ndjson_scan from_slice lay [length (nd_buffer s)..<length buf] 0 ?s0 =
      Some (length buf - length (unterminated buf), ?s1)"
    unfolding buf_def t by (rule ndjson.scan_correct) simp_all
  have "ndjson_append_frame from_slice B lay frame s = Some (?s1\<lparr>nd_buffer := unterminated buf\<rparr>)"
    by (simp add: ndjson_append_frame_def Let_def fill scan ndjson_fold drop_processed)
  then show ?thesis
    by (simp add: ndjson_tracks_def ndjson_fold ndjson_new_items_def buf_def
        unterminated_append [of bs "content frame"])
qed

definition ndjson_body_outcome ::
  "('body \<Rightarrow> (byte list, 'x error) outcome \<times> 'body) \<Rightarrow> ('body, 'x, 'item) ndjson_stream \<Rightarrow>
   (byte list, 'x error) outcome" where
  "ndjson_body_outcome poll_frame s = fst (poll_frame (nd_body s))"

lemma ndjson_tracks_body [simp]:
  "ndjson_tracks (s\<lparr>nd_body := b\<rparr>) bs = ndjson_tracks s bs"
  "ndjson_tracks (s\<lparr>nd_queue := q\<rparr>) bs = ndjson_tracks s bs"
  by (simp_all add: ndjson_tracks_def)

lemma ndjson_poll_data:
  assumes "nd_queue s = []" and "ndjson_tracks s bs"
    and body: "poll_frame (nd_body s) = (Ready (Some (Inr (DataFrame d))), b)"
  shows "\<exists>s' r w. deliver (ndjson_new_items from_slice bs d) = (r, w) \<and>
           ndjson_poll_next from_slice poll_frame lay s = Some (r, w, s') \<and>
           nd_queue s' = tl (ndjson_new_items from_slice bs d) \<and> ndjson_tracks s' (bs @ d)"
proof -
  obtain s2 where "ndjson_append_frame from_slice bytes_buf lay d (s\<lparr>nd_body := b\<rparr>) = Some s2"
      "ndjson_tracks s2 (bs @ d)" "nd_queue s2 = ndjson_new_items from_slice bs d"
    using ndjson_append_correct [OF contiguous.buf_laws_axioms, of "s\<lparr>nd_body := b\<rparr>" bs from_slice lay d]
      assms by auto
  then show ?thesis
    using assms
    by (cases "ndjson_new_items from_slice bs d") (auto simp: ndjson_poll_next_def deliver_def)
qed

interpretation ndjson_stream: framed_stream "ndjson_poll_next from_slice poll_frame lay"
    "ndjson_body_outcome poll_frame" nd_queue "ndjson_reference from_slice" ndjson_tracks
  for from_slice poll_frame lay
proof
  fix s :: "('c, 'a, 'b) ndjson_stream" and d bs
  assume "nd_queue s = []" and "ndjson_body_outcome poll_frame s = Ready (Some (Inr (DataFrame d)))"
    and "ndjson_tracks s bs"
  then show "\<exists>s' q r w. ndjson_reference from_slice (bs @ d) = ndjson_reference from_slice bs @ q \<and>
      deliver q = (r, w) \<and> ndjson_poll_next from_slice poll_frame lay s = Some (r, w, s') \<and>
      nd_queue s' = tl q \<and> ndjson_tracks s' (bs @ d)"
    using ndjson_poll_data [of s bs poll_frame d "snd (poll_frame (nd_body s))" from_slice lay]
    by (auto simp: ndjson_body_outcome_def ndjson_reference_append prod_eq_iff)
qed (auto simp: ndjson_body_outcome_def ndjson_poll_next_def split: prod.splits)

lemma ndjson_append_body:
  "ndjson_tracks s bs \<Longrightarrow> ndjson_append_frame from_slice bytes_buf lay d s = Some s' \<Longrightarrow> nd_body s' = nd_body s"
  using ndjson_append_correct [OF contiguous.buf_laws_axioms, of s bs from_slice lay d] by auto

interpretation ndjson_over_body: body_stream "ndjson_poll_next from_slice poll_frame lay"
    "ndjson_body_outcome poll_frame" nd_queue "ndjson_reference from_slice" ndjson_tracks poll_frame nd_body
  for from_slice poll_frame lay
  by unfold_locales
    (auto simp: ndjson_body_outcome_def ndjson_poll_next_def Let_def dest!: ndjson_append_body [rotated]
      split: list.splits prod.splits poll.splits option.splits sum.splits)

section \<open>Properties of the stream\<close>

lemma ndjson_new_tracks:
  "ndjson_tracks (ndjson_new B map_frame box_new body) []"
  "nd_queue (ndjson_new B map_frame box_new body) = []"
  by (simp_all add: ndjson_tracks_def ndjson_new_def Let_def unterminated_def)

lemma ndjson_reference_Nil [simp]: "ndjson_reference from_slice [] = []"
  by (simp add: ndjson_reference_def complete_lines_def)

definition ndjson_polls ::
  "(byte list \<Rightarrow> 'x + 'item) \<Rightarrow> ('body \<Rightarrow> (byte list, 'x error) outcome \<times> 'body) \<Rightarrow>
   (byte list \<Rightarrow> nat) \<Rightarrow> nat \<Rightarrow> ('body, 'x, 'item) ndjson_stream \<Rightarrow>
   (('item, 'x error) poll_log list \<times> ('body, 'x, 'item) ndjson_stream) option" where
  "ndjson_polls from_slice poll_frame lay =
     run_polls (ndjson_poll_next from_slice poll_frame lay) (asks (ndjson_body_outcome poll_frame) nd_queue)"

lemma ndjson_polls_correct:
  "\<exists>log s'. ndjson_polls from_slice poll_frame lay n (ndjson_new B map_frame box_new body) = Some (log, s') \<and>
     length log = n \<and> list_all log_fair log \<and>
     items log @ nd_queue s' = ndjson_reference from_slice (delivered log) \<and>
     nd_buffer s' = unterminated (delivered log)"
  using ndjson_stream.run_correct [OF ndjson_new_tracks(1), of "[]" B map_frame box_new body
      from_slice poll_frame lay n]
  by (simp add: ndjson_new_tracks ndjson_polls_def ndjson_tracks_def conj_ac)

lemma ndjson_polls_body:
  assumes "ndjson_polls from_slice poll_frame lay n (ndjson_new B map_frame box_new body) = Some (log, s')"
  shows "\<exists>k \<le> n. delivered log = data_bytes (poll_n poll_frame k (box_new (map_frame (map_data (to_bytes B)) body)))"
  using ndjson_over_body.outcomes_are_polls [OF ndjson_new_tracks(1), of from_slice poll_frame lay n B map_frame box_new body] assms
  by (auto simp: ndjson_polls_def delivered_outcomes ndjson_new_def Let_def)

text \<open>
  C2: Any number of polls of a new \<open>NdjsonStream\<close> returns, and the items handed out followed by
  those still queued are exactly the deserializer's results for the complete lines of the bytes
  delivered so far, those of the first \<open>k\<close> polls of the body, in order, failures included; bytes
  after the last newline stay in the buffer. Every poll is fair: it sleeps only with a wake-up on its way, ends exactly when the
  body ends, and hands an error of the body through.
\<close>

theorem ndjson_stream_refines_reference:
  "\<exists>log s' k. ndjson_polls from_slice poll_frame lay n (ndjson_new B map_frame box_new body) = Some (log, s') \<and>
     length log = n \<and> list_all log_fair log \<and> k \<le> n \<and>
     delivered log = data_bytes (poll_n poll_frame k (box_new (map_frame (map_data (to_bytes B)) body))) \<and>
     items log @ nd_queue s' = ndjson_reference from_slice (delivered log) \<and>
     nd_buffer s' = unterminated (delivered log)"
proof -
  obtain log s' where run: "ndjson_polls from_slice poll_frame lay n (ndjson_new B map_frame box_new body) = Some (log, s')"
      and rest: "length log = n \<and> list_all log_fair log \<and>
        items log @ nd_queue s' = ndjson_reference from_slice (delivered log) \<and>
        nd_buffer s' = unterminated (delivered log)"
    using ndjson_polls_correct [of from_slice poll_frame lay n B map_frame box_new body] by blast
  with ndjson_polls_body [OF run] show ?thesis by blast
qed

lemma ndjson_to_end:
  fixes from_slice :: "byte list \<Rightarrow> 'x + 'item" and box_new :: "'d \<Rightarrow> 'body"
  assumes "poll_n poll_frame (Suc (length os)) (box_new (map_frame (map_data (to_bytes B)) body)) = os @ [Ready None]"
    and "Ready None \<notin> set os"
  shows "\<exists>n log l s'. ndjson_polls from_slice poll_frame lay n (ndjson_new B map_frame box_new body) =
             Some (log @ [l], s') \<and>
           log_result l = Ready None \<and> list_all (\<lambda>l. log_result l \<noteq> Ready None) log \<and>
           list_all log_fair (log @ [l]) \<and> outcomes (log @ [l]) = os @ [Ready None] \<and>
           items log = ndjson_reference from_slice (data_bytes os)"
proof -
  have "poll_n poll_frame (Suc (length os))
      (nd_body (ndjson_new B map_frame box_new body :: ('body, 'x, 'item) ndjson_stream)) = os @ [Ready None]"
    using assms(1) by (simp add: ndjson_new_def Let_def)
  from ndjson_over_body.polls_to_end [OF ndjson_new_tracks(1) this assms(2), of "[]" from_slice lay]
  show ?thesis by (simp add: ndjson_new_tracks ndjson_polls_def)
qed

text \<open>
  C4: A caller who polls an \<open>NdjsonStream\<close> until it ends gets everything: when the body answers
  \<open>os\<close> and then ends, some number of polls ends the stream at its last poll and not before; the
  stream asks the body for all of \<open>os\<close>, and the items handed out are exactly the deserializer's
  results for the complete lines of all the data in it, failures included.
\<close>

theorem ndjson_complete:
  fixes from_slice :: "byte list \<Rightarrow> 'x + 'item" and box_new :: "'d \<Rightarrow> 'body"
  assumes "poll_n poll_frame (Suc (length os)) (box_new (map_frame (map_data (to_bytes B)) body)) = os @ [Ready None]"
    and "Ready None \<notin> set os"
  shows "\<exists>n log l s'. ndjson_polls from_slice poll_frame lay n (ndjson_new B map_frame box_new body) =
             Some (log @ [l], s') \<and>
           log_result l = Ready None \<and> list_all (\<lambda>l. log_result l \<noteq> Ready None) log \<and>
           list_all log_fair (log @ [l]) \<and> outcomes (log @ [l]) = os @ [Ready None] \<and>
           items log = ndjson_reference from_slice (data_bytes os)"
  using assms by (rule ndjson_to_end)

theorem ndjson_complete_witness:
  "\<exists>n log l s'. ndjson_polls (\<lambda>l. if l = [] then Inl (0::nat) else Inr l) poll_script (\<lambda>_. 2) n
       (ndjson_new bytes_buf (\<lambda>_ b. b) (\<lambda>b. b)
         [Pending, Ready (Some (Inr (DataFrame [49, 10, 10, 50]))), Ready (Some (Inr (DataFrame [10, 51])))]) =
       Some (log @ [l], s') \<and>
     log_result l = Ready None \<and> list_all (\<lambda>l. log_result l \<noteq> Ready None) log \<and>
     list_all log_fair (log @ [l]) \<and>
     outcomes (log @ [l]) = [Pending, Ready (Some (Inr (DataFrame [49, 10, 10, 50]))),
       Ready (Some (Inr (DataFrame [10, 51])))] @ [Ready None] \<and>
     items log = ndjson_reference (\<lambda>l. if l = [] then Inl (0::nat) else Inr l) (data_bytes [Pending,
       Ready (Some (Inr (DataFrame [49, 10, 10, 50]))), Ready (Some (Inr (DataFrame [10, 51]))) :: (byte list, nat error) outcome])"
  by (rule ndjson_complete) simp_all

text \<open>
  \<open>append_frame\<close> on any lawful buffer returns (no loop that spins, no slice and no \<open>drain\<close> out
  of range), and queues exactly the results for the lines that the new bytes complete.
\<close>

theorem ndjson_append_frame_correct:
  assumes "buf_laws B content" and "ndjson_tracks s bs"
  shows "\<exists>s' rs. ndjson_append_frame from_slice B lay frame s = Some s' \<and>
           ndjson_reference from_slice (bs @ content frame) = ndjson_reference from_slice bs @ rs \<and>
           nd_queue s' = nd_queue s @ rs \<and> ndjson_tracks s' (bs @ content frame)"
  using ndjson_append_correct [OF assms, of from_slice lay frame]
  by (auto simp: ndjson_reference_append)

definition sample_ndjson :: "(unit, nat, byte list) ndjson_stream" where
  "sample_ndjson = ndjson_new bytes_buf (\<lambda>_ b. b) (\<lambda>b. b) ()"

theorem ndjson_append_frame_correct_witness:
  "\<exists>s' rs. ndjson_append_frame (\<lambda>l. if l = [] then Inl 0 else Inr l) rope_buf (\<lambda>_. 1)
             [[49, 10], [10, 50]] sample_ndjson = Some s' \<and>
     ndjson_reference (\<lambda>l. if l = [] then Inl 0 else Inr l) ([] @ concat [[49, 10], [10, 50]]) =
       ndjson_reference (\<lambda>l. if l = [] then Inl (0::nat) else Inr l) [] @ rs \<and>
     nd_queue s' = nd_queue sample_ndjson @ rs \<and>
     ndjson_tracks s' ([] @ concat [[49, 10], [10, 50]])"
  by (rule ndjson_append_frame_correct [OF rope.buf_laws_axioms])
    (simp add: sample_ndjson_def ndjson_new_tracks)

text \<open>
  What follows the last newline is never parsed: a body whose final line lacks its newline
  yields the same items as the body without that line.
\<close>

theorem ndjson_last_line_dropped:
  assumes "newline \<notin> set l"
  shows "ndjson_reference from_slice (bs @ newline # l) = ndjson_reference from_slice (bs @ [newline])"
proof -
  have "unterminated (bs @ [newline]) = []"
    by (simp add: unterminated_def lines_rest_append)
  then show ?thesis
    using complete_lines_append [of "bs @ [newline]" l] assms
    by (simp add: ndjson_reference_def complete_lines_def [of l] lines_rest_no_newline)
qed

theorem ndjson_last_line_dropped_witness:
  "ndjson_reference (\<lambda>l. if l = [] then Inl (0::nat) else Inr l) ([49] @ newline # [50, 51]) =
   ndjson_reference (\<lambda>l. if l = [] then Inl (0::nat) else Inr l) ([49] @ [newline])"
  by (rule ndjson_last_line_dropped) simp

end
