(* ===== verification/Client.thy ===== *)
theory Client
  imports BaseService Ndjson
begin

text \<open>
  The client and the request builders (\<open>src/lib.rs\<close>, \<open>src/bound_request.rs\<close>,
  \<open>src/bound_request/json.rs\<close>).

  \<open>http::request::Builder\<close> is the record \<open>http_builder\<close>, a parameter, with its documented behaviour
  as the locale \<open>builder_laws\<close>.  Its \<open>body\<close> method is generic in the body and only pairs it with
  the parts it has collected: \<open>hb_parts\<close> are these parts or the first error of the chain.
  Constructors of bodies (\<open>Empty\<close>, \<open>Full\<close>, \<open>StreamBody\<close>) and \<open>serde_json::to_vec\<close> are parameters.
\<close>

section \<open>The client\<close>

record ('req, 'resp, 'w, 'x) client =
  cl_pipeline :: "('req, 'resp, 'w, 'x) pipeline"

text \<open>The pool of the base service is the first component of the state that calls act on.\<close>

definition client_new ::
  "('conn, 'w, 'x) transport_plugin \<Rightarrow> ('conn, 'sess, 'driver, 'w, 'x) application_plugin \<Rightarrow>
   ('driver, 'w) async_runtime \<Rightarrow> ('sess, ('ext, 'nb) request, ('ext, 'rb) response, 'w, 'x) session \<Rightarrow>
   (('ext, 'rb) response \<Rightarrow> ('ext, 'nb) response) \<Rightarrow> 'w \<Rightarrow>
   (('ext, 'nb) request, ('ext, 'nb) response, ('sess, 'w) base_state, 'x) client \<times> ('sess, 'w) base_state" where
  "client_new transport app runtime sess norm w =
     (case base_service_new transport app runtime sess norm w of
        (service, state) \<Rightarrow> (\<lparr>cl_pipeline = pipeline_new (AsService (base_handle service))\<rparr>, state))"

definition client_with_service ::
  "('req, 'resp, 'w, 'x) service into_service \<Rightarrow> ('req, 'resp, 'w, 'x) client" where
  "client_with_service service = \<lparr>cl_pipeline = pipeline_new service\<rparr>"

definition client_send ::
  "('b, 'b1, 'b2, 'nb, 'd, 'nd, 'e, 'x) body_kit \<Rightarrow> (('ext, 'nb) request, 'resp, 'w, 'x) client \<Rightarrow>
   ('ext, 'b) request \<Rightarrow> ('w, 'x, 'resp) io" where
  "client_send kit self req =
     (let req_parts = rq_parts req;
          req_body = kit_boxed kit (kit_map_err kit (kit_into kit)
            (kit_map_frame kit (map_data (kit_box_data kit)) (rq_body req)));
          request = \<lparr>rq_parts = req_parts, rq_body = req_body\<rparr>
      in pipeline_handle (cl_pipeline self) request)"

section \<open>The builder\<close>

record ('hb, 'u, 'e1, 'ext, 'x) http_builder =
  hb_builder :: 'hb
  hb_method :: "string \<Rightarrow> 'hb \<Rightarrow> 'hb"
  hb_uri :: "'u \<Rightarrow> 'hb \<Rightarrow> 'hb"
  hb_header :: "uchar list \<Rightarrow> byte list \<Rightarrow> 'hb \<Rightarrow> 'hb"
  hb_extension :: "'e1 \<Rightarrow> 'hb \<Rightarrow> 'hb"
  hb_headers_ref :: "'hb \<Rightarrow> headers option"
  hb_parts :: "'hb \<Rightarrow> 'x + 'ext req_parts"

record ('hb, 'client) bound_request_builder =
  brb_inner :: 'hb
  brb_client :: 'client

record ('ext, 'b, 'client) bound_request =
  br_request :: "('ext, 'b) request"
  br_client :: 'client

definition builder_new ::
  "('hb, 'u, 'e1, 'ext, 'x) http_builder \<Rightarrow> 'client \<Rightarrow> string \<Rightarrow> 'u \<Rightarrow> ('hb, 'client) bound_request_builder" where
  "builder_new H client meth u =
     (let inner = hb_uri H u (hb_method H meth (hb_builder H))
      in \<lparr>brb_inner = inner, brb_client = client\<rparr>)"

definition builder_header ::
  "('hb, 'u, 'e1, 'ext, 'x) http_builder \<Rightarrow> uchar list \<Rightarrow> byte list \<Rightarrow> ('hb, 'client) bound_request_builder \<Rightarrow>
   ('hb, 'client) bound_request_builder" where
  "builder_header H key val self = self\<lparr>brb_inner := hb_header H key val (brb_inner self)\<rparr>"

definition builder_extension ::
  "('hb, 'u, 'e1, 'ext, 'x) http_builder \<Rightarrow> 'e1 \<Rightarrow> ('hb, 'client) bound_request_builder \<Rightarrow>
   ('hb, 'client) bound_request_builder" where
  "builder_extension H extension self = self\<lparr>brb_inner := hb_extension H extension (brb_inner self)\<rparr>"

definition builder_body ::
  "('hb, 'u, 'e1, 'ext, 'x) http_builder \<Rightarrow> 'b \<Rightarrow> ('hb, 'client) bound_request_builder \<Rightarrow>
   'x error + ('ext, 'b, 'client) bound_request" where
  "builder_body H body self =
     (case hb_parts H (brb_inner self) of
        Inl e \<Rightarrow> Inl (Foreign e)
      | Inr parts \<Rightarrow> Inr \<lparr>br_request = \<lparr>rq_parts = parts, rq_body = body\<rparr>, br_client = brb_client self\<rparr>)"

text \<open>\<open>build\<close> attaches \<open>Empty::new()\<close>.\<close>

definition builder_build ::
  "('hb, 'u, 'e1, 'ext, 'x) http_builder \<Rightarrow> 'be \<Rightarrow> ('hb, 'client) bound_request_builder \<Rightarrow>
   'x error + ('ext, 'be, 'client) bound_request" where
  "builder_build H empty_body self =
     (case hb_parts H (brb_inner self) of
        Inl e \<Rightarrow> Inl (Foreign e)
      | Inr parts \<Rightarrow> Inr \<lparr>br_request = \<lparr>rq_parts = parts, rq_body = empty_body\<rparr>, br_client = brb_client self\<rparr>)"

definition content_type :: string where
  "content_type = ''content-type''"

definition ensure_content_type ::
  "('hb, 'u, 'e1, 'ext, 'x) http_builder \<Rightarrow> byte list \<Rightarrow> ('hb, 'client) bound_request_builder \<Rightarrow>
   ('hb, 'client) bound_request_builder" where
  "ensure_content_type H val self =
     (if (case hb_headers_ref H (brb_inner self) of
            None \<Rightarrow> True | Some headers \<Rightarrow> map_of headers content_type = None)
      then self\<lparr>brb_inner := hb_header H (str content_type) val (brb_inner self)\<rparr>
      else self)"

definition ascii :: "string \<Rightarrow> byte list" where
  "ascii s = map of_char s"

definition builder_text ::
  "('hb, 'u, 'e1, 'ext, 'x) http_builder \<Rightarrow> (byte list \<Rightarrow> 'bf) \<Rightarrow> uchar list \<Rightarrow>
   ('hb, 'client) bound_request_builder \<Rightarrow> 'x error + ('ext, 'bf, 'client) bound_request" where
  "builder_text H full text self =
     (let body_bytes = str_bytes text
      in builder_body H (full body_bytes)
           (ensure_content_type H (ascii ''text/plain; charset=utf-8'') self))"

definition builder_bytes ::
  "('hb, 'u, 'e1, 'ext, 'x) http_builder \<Rightarrow> (byte list \<Rightarrow> 'bf) \<Rightarrow> byte list \<Rightarrow>
   ('hb, 'client) bound_request_builder \<Rightarrow> 'x error + ('ext, 'bf, 'client) bound_request" where
  "builder_bytes H full bytes self =
     builder_body H (full bytes) (ensure_content_type H (ascii ''application/octet-stream'') self)"

definition builder_json ::
  "('hb, 'u, 'e1, 'ext, 'x) http_builder \<Rightarrow> (byte list \<Rightarrow> 'bf) \<Rightarrow> ('t \<Rightarrow> 'x + byte list) \<Rightarrow> 't \<Rightarrow>
   ('hb, 'client) bound_request_builder \<Rightarrow> 'x error + ('ext, 'bf, 'client) bound_request" where
  "builder_json H full to_vec data self =
     result_bind (foreign (to_vec data)) (\<lambda>body.
       builder_body H (full body) (ensure_content_type H (ascii ''application/json'') self))"

text \<open>The closure that turns an item into a frame of the body.\<close>

definition ndjson_frame :: "('t \<Rightarrow> 'x + byte list) \<Rightarrow> 't \<Rightarrow> 'x error + byte list frame" where
  "ndjson_frame to_vec item =
     result_bind (foreign (to_vec item)) (\<lambda>buffer.
       let buffer = buffer @ [newline] in Inr (DataFrame buffer))"

text \<open>\<open>map_stream\<close> is \<open>StreamExt::map\<close>, \<open>stream_body\<close> is \<open>StreamBody::new\<close> with \<open>boxed\<close>.\<close>

definition builder_ndjson ::
  "('hb, 'u, 'e1, 'ext, 'x) http_builder \<Rightarrow>
   (('t \<Rightarrow> 'x error + byte list frame) \<Rightarrow> 'ts \<Rightarrow> 'ms) \<Rightarrow> ('ms \<Rightarrow> 'bs) \<Rightarrow> ('t \<Rightarrow> 'x + byte list) \<Rightarrow> 'ts \<Rightarrow>
   ('hb, 'client) bound_request_builder \<Rightarrow> 'x error + ('ext, 'bs, 'client) bound_request" where
  "builder_ndjson H map_stream stream_body to_vec data self =
     (let stream = map_stream (ndjson_frame to_vec) data;
          body = stream_body stream
      in builder_body H body (ensure_content_type H (ascii ''application/x-ndjson'') self))"

section \<open>The request\<close>

definition bound_request_send ::
  "('b, 'b1, 'b2, 'nb, 'd, 'nd, 'e, 'x) body_kit \<Rightarrow>
   ('ext, 'b, (('ext, 'nb) request, 'resp, 'w, 'x) client) bound_request \<Rightarrow> ('w, 'x, 'resp) io" where
  "bound_request_send kit self = client_send kit (br_client self) (br_request self)"

definition builder_send ::
  "('hb, 'u, 'e1, 'ext, 'x) http_builder \<Rightarrow> ('be, 'b1, 'b2, 'nb, 'd, 'nd, 'e, 'x) body_kit \<Rightarrow> 'be \<Rightarrow>
   ('hb, (('ext, 'nb) request, 'resp, 'w, 'x) client) bound_request_builder \<Rightarrow> ('w, 'x, 'resp) io" where
  "builder_send H kit empty_body self w =
     (case builder_build H empty_body self of
        Inl e \<Rightarrow> (Inl e, w)
      | Inr req \<Rightarrow> bound_request_send kit req w)"

definition br_version :: "('ext, 'b, 'client) bound_request \<Rightarrow> nat" where
  "br_version self = rp_version (rq_parts (br_request self))"

definition br_method :: "('ext, 'b, 'client) bound_request \<Rightarrow> string" where
  "br_method self = rp_method (rq_parts (br_request self))"

definition br_uri :: "('ext, 'b, 'client) bound_request \<Rightarrow> uri" where
  "br_uri self = request_uri (br_request self)"

definition br_body :: "('ext, 'b, 'client) bound_request \<Rightarrow> 'b" where
  "br_body self = rq_body (br_request self)"

definition br_into_body :: "('ext, 'b, 'client) bound_request \<Rightarrow> 'b" where
  "br_into_body self = rq_body (br_request self)"

definition br_headers :: "('ext, 'b, 'client) bound_request \<Rightarrow> headers" where
  "br_headers self = rp_headers (rq_parts (br_request self))"

definition br_extensions :: "('ext, 'b, 'client) bound_request \<Rightarrow> 'ext" where
  "br_extensions self = rp_extensions (rq_parts (br_request self))"

section \<open>The methods of the client that start a request\<close>

definition client_request ::
  "('hb, 'u, 'e1, 'ext, 'x) http_builder \<Rightarrow> 'client \<Rightarrow> string \<Rightarrow> 'u \<Rightarrow> ('hb, 'client) bound_request_builder" where
  "client_request H self meth u = builder_new H self meth u"

definition client_head :: "('hb, 'u, 'e1, 'ext, 'x) http_builder \<Rightarrow> 'client \<Rightarrow> 'u \<Rightarrow> ('hb, 'client) bound_request_builder" where
  "client_head H self u = client_request H self ''HEAD'' u"

definition client_get :: "('hb, 'u, 'e1, 'ext, 'x) http_builder \<Rightarrow> 'client \<Rightarrow> 'u \<Rightarrow> ('hb, 'client) bound_request_builder" where
  "client_get H self u = client_request H self ''GET'' u"

definition client_post :: "('hb, 'u, 'e1, 'ext, 'x) http_builder \<Rightarrow> 'client \<Rightarrow> 'u \<Rightarrow> ('hb, 'client) bound_request_builder" where
  "client_post H self u = client_request H self ''POST'' u"

definition client_put :: "('hb, 'u, 'e1, 'ext, 'x) http_builder \<Rightarrow> 'client \<Rightarrow> 'u \<Rightarrow> ('hb, 'client) bound_request_builder" where
  "client_put H self u = client_request H self ''PUT'' u"

definition client_patch :: "('hb, 'u, 'e1, 'ext, 'x) http_builder \<Rightarrow> 'client \<Rightarrow> 'u \<Rightarrow> ('hb, 'client) bound_request_builder" where
  "client_patch H self u = client_request H self ''PATCH'' u"

definition client_delete :: "('hb, 'u, 'e1, 'ext, 'x) http_builder \<Rightarrow> 'client \<Rightarrow> 'u \<Rightarrow> ('hb, 'client) bound_request_builder" where
  "client_delete H self u = client_request H self ''DELETE'' u"

section \<open>The builder of the http crate\<close>

text \<open>Values of headers: visible ASCII and blanks, as the constants of the builders are.\<close>

definition header_value :: "byte list \<Rightarrow> bool" where
  "header_value v \<longleftrightarrow> list_all (\<lambda>b. 32 \<le> b \<and> b < 127) v"

text \<open>
  The documented behaviour: the headers can be looked at as long as no call has failed; a failure
  stays; a valid header is appended.
\<close>

locale builder_laws =
  fixes H :: "('hb, 'u, 'e1, 'ext, 'x) http_builder"
  assumes headers_parts: "hb_headers_ref H b = (case hb_parts H b of Inl e \<Rightarrow> None | Inr p \<Rightarrow> Some (rp_headers p))"
    and header_failed: "hb_parts H b = Inl e \<Longrightarrow> hb_parts H (hb_header H k v b) = Inl e"
    and header_appended: "hb_parts H b = Inr p \<Longrightarrow> header_value v \<Longrightarrow>
      hb_parts H (hb_header H (str content_type) v b) = Inr (p\<lparr>rp_headers := rp_headers p @ [(content_type, v)]\<rparr>)"

text \<open>The parts with a content type: the one they have, or the given one.\<close>

definition with_content_type :: "byte list \<Rightarrow> 'ext req_parts \<Rightarrow> 'ext req_parts" where
  "with_content_type v p =
     (if map_of (rp_headers p) content_type = None
      then p\<lparr>rp_headers := rp_headers p @ [(content_type, v)]\<rparr> else p)"

context builder_laws
begin

lemma ensure_content_type_parts:
  assumes "header_value v"
  shows "hb_parts H (brb_inner (ensure_content_type H v self)) =
      map_sum id (with_content_type v) (hb_parts H (brb_inner self)) \<and>
    brb_client (ensure_content_type H v self) = brb_client self"
  using assms
  by (cases "hb_parts H (brb_inner self)")
    (auto simp: ensure_content_type_def headers_parts header_failed header_appended with_content_type_def)

lemma body_with_content_type:
  assumes "header_value v"
  shows "builder_body H body (ensure_content_type H v self) =
    map_sum Foreign (\<lambda>p. \<lparr>br_request = \<lparr>rq_parts = with_content_type v p, rq_body = body\<rparr>,
      br_client = brb_client self\<rparr>) (hb_parts H (brb_inner self))"
  using ensure_content_type_parts [OF assms, of self]
  by (cases "hb_parts H (brb_inner self)") (simp_all add: builder_body_def)

end

text \<open>A builder that keeps the laws: the parts so far, or the first error.\<close>

definition lower :: "uchar list \<Rightarrow> string" where
  "lower s = map (\<lambda>c. char_of (if 65 \<le> c \<and> c \<le> 90 then c + 32 else c)) s"

definition parts_builder :: "'ext \<Rightarrow> 'x \<Rightarrow> uri \<Rightarrow>
    ('x + 'ext req_parts, 'x + uri, 'ext \<Rightarrow> 'ext, 'ext, 'x) http_builder" where
  "parts_builder no_ext bad_header no_uri =
     \<lparr>hb_builder = Inr \<lparr>rp_method = ''GET'', rp_uri = no_uri, rp_version = 11, rp_headers = [], rp_extensions = no_ext\<rparr>,
      hb_method = (\<lambda>m. map_sum id (\<lambda>p. p\<lparr>rp_method := m\<rparr>)),
      hb_uri = (\<lambda>u b. result_bind b (\<lambda>p. map_sum id (\<lambda>u. p\<lparr>rp_uri := u\<rparr>) u)),
      hb_header = (\<lambda>k v b. result_bind b (\<lambda>p.
         if k \<noteq> [] \<and> list_all (\<lambda>c. 33 \<le> c \<and> c < 127) k \<and> header_value v then Inr (p\<lparr>rp_headers := rp_headers p @ [(lower k, v)]\<rparr>)
         else Inl bad_header)),
      hb_extension = (\<lambda>f. map_sum id (\<lambda>p. p\<lparr>rp_extensions := f (rp_extensions p)\<rparr>)),
      hb_headers_ref = case_sum (\<lambda>e. None) (\<lambda>p. Some (rp_headers p)),
      hb_parts = (\<lambda>b. b)\<rparr>"

lemma str_content_type:
  "lower (str content_type) = content_type" "str content_type \<noteq> []"
  "list_all (\<lambda>c. 33 \<le> c \<and> c < 127) (str content_type)"
  by (simp_all add: lower_def content_type_def str_def char_of_def bit_Suc_0_iff)

interpretation parts_builder: builder_laws "parts_builder no_ext bad_header no_uri"
  for no_ext bad_header no_uri
  by unfold_locales (auto simp: parts_builder_def str_content_type split: sum.split)

lemma content_types_valid:
  "header_value (ascii ''text/plain; charset=utf-8'')" "header_value (ascii ''application/octet-stream'')"
  "header_value (ascii ''application/json'')" "header_value (ascii ''application/x-ndjson'')"
  by (simp_all add: header_value_def ascii_def)

text \<open>
  C37: The methods that attach text, bytes or JSON keep a content type that the caller has set and
  otherwise append their own; every other part of the request stays as built, the body is the
  data (UTF-8 for text), and the first error of the chain comes out unchanged. A value that does
  not serialize fails before the builder is looked at.
\<close>

theorem builders_set_content_type:
  assumes "builder_laws H"
  shows "builder_text H full text self =
      map_sum Foreign (\<lambda>p. \<lparr>br_request = \<lparr>rq_parts = with_content_type (ascii ''text/plain; charset=utf-8'') p,
        rq_body = full (str_bytes text)\<rparr>, br_client = brb_client self\<rparr>) (hb_parts H (brb_inner self)) \<and>
    builder_bytes H full bytes self =
      map_sum Foreign (\<lambda>p. \<lparr>br_request = \<lparr>rq_parts = with_content_type (ascii ''application/octet-stream'') p,
        rq_body = full bytes\<rparr>, br_client = brb_client self\<rparr>) (hb_parts H (brb_inner self)) \<and>
    builder_json H full to_vec data self =
      (case to_vec data of Inl e \<Rightarrow> Inl (Foreign e)
       | Inr body \<Rightarrow> map_sum Foreign (\<lambda>p. \<lparr>br_request = \<lparr>rq_parts = with_content_type (ascii ''application/json'') p,
           rq_body = full body\<rparr>, br_client = brb_client self\<rparr>) (hb_parts H (brb_inner self)))"
  by (simp add: builder_text_def builder_bytes_def builder_json_def
      builder_laws.body_with_content_type [OF assms] content_types_valid split: sum.split)

theorem builders_set_content_type_witness:
  "\<exists>br. builder_text (parts_builder () (1 :: nat) (sample_uri None)) id (str ''hi'')
       (builder_header (parts_builder () 1 (sample_uri None)) (str ''Content-Type'') (ascii ''text/html'')
          (client_request (parts_builder () 1 (sample_uri None)) () ''PUT'' (Inr (sample_uri None)))) = Inr br \<and>
     br_headers br = [(''content-type'', ascii ''text/html'')] \<and> br_body br = [104, 105]"
proof -
  have "lower (str ''Content-Type'') = ''content-type''" by (simp add: lower_def str_def char_of_def bit_Suc_0_iff)
  moreover have "header_value (ascii ''text/html'')" by (simp add: header_value_def ascii_def)
  ultimately show ?thesis
    using conjunct1 [OF builders_set_content_type [OF parts_builder.builder_laws_axioms [of "()" "1 :: nat" "sample_uri None"],
        of id "str ''hi''" "builder_header (parts_builder () 1 (sample_uri None)) (str ''Content-Type'') (ascii ''text/html'')
          (client_request (parts_builder () 1 (sample_uri None)) () ''PUT'' (Inr (sample_uri None)))"]]
    by (simp add: parts_builder_def builder_header_def client_request_def builder_new_def
        with_content_type_def content_type_def br_headers_def br_body_def str_def str_bytes_def
        encode_char_def byte_of_def)
qed

section \<open>From the client to the base service\<close>

lemma client_send_base:
  "client_send kit (fst (client_new transport app runtime sess norm w)) req st =
     base_handle (fst (base_service_new transport app runtime sess norm w))
       \<lparr>rq_parts = rq_parts req, rq_body = normalize_body kit (rq_body req)\<rparr> st"
  by (simp add: client_send_def client_new_def base_service_new_def pipeline_handle_def pipeline_new_def
      normalize_body_def Let_def)

lemma client_send_layers:
  "client_send kit (client_with_service (Wrapped m svc)) req =
     foldr (\<lambda>f. f) (layers m) svc \<lparr>rq_parts = rq_parts req, rq_body = normalize_body kit (rq_body req)\<rparr>"
  by (rule ext) (simp add: client_send_def client_with_service_def pipeline_handle_def pipeline_new_def
      normalize_body_def wrap_foldr)

text \<open>
  C38: A request built with a client and sent at once carries the chosen method and URI and the normalized
  empty body through the layers of middleware from left to right to the service; without middleware
  that service is the base service over the given plugins; and if the builder has failed, its error
  comes out, no layer sees a request and nothing is done.
\<close>

theorem client_sends_through_layers:
  "builder_send H kit empty_body (client_request H (client_with_service (Wrapped m svc)) meth u) st =
     (case hb_parts H (hb_uri H u (hb_method H meth (hb_builder H))) of
        Inl e \<Rightarrow> (Inl (Foreign e), st)
      | Inr p \<Rightarrow> foldr (\<lambda>f. f) (layers m) svc \<lparr>rq_parts = p, rq_body = normalize_body kit empty_body\<rparr> st) \<and>
   builder_send H kit empty_body (client_request H (fst (client_new transport app runtime sess norm w)) meth u) st =
     (case hb_parts H (hb_uri H u (hb_method H meth (hb_builder H))) of
        Inl e \<Rightarrow> (Inl (Foreign e), st)
      | Inr p \<Rightarrow> base_handle \<lparr>bs_transport = transport, bs_app = app, bs_runtime = runtime,
            bs_session = sess, bs_normalize = norm\<rparr>
          \<lparr>rq_parts = p, rq_body = normalize_body kit empty_body\<rparr> st)"
  by (simp add: builder_send_def builder_build_def client_request_def builder_new_def bound_request_send_def
      client_send_base client_send_layers Let_def base_service_new_def split: sum.split)

section \<open>NDJSON from builder to parser\<close>

fun stream_outcome :: "('t \<Rightarrow> 'x error + byte list frame) \<Rightarrow> 't option poll \<Rightarrow> (byte list, 'x error) outcome" where
  "stream_outcome f Pending = Pending"
| "stream_outcome f (Ready None) = Ready None"
| "stream_outcome f (Ready (Some t)) = Ready (Some (f t))"

text \<open>The items that \<open>n\<close> polls of a stream yield.\<close>

fun items_n :: "('s \<Rightarrow> 't option poll \<times> 's) \<Rightarrow> nat \<Rightarrow> 's \<Rightarrow> 't list" where
  "items_n poll_next 0 s = []"
| "items_n poll_next (Suc n) s =
     (case poll_next s of
        (Ready (Some t), s') \<Rightarrow> t # items_n poll_next n s'
      | (_, s') \<Rightarrow> items_n poll_next n s')"

lemma poll_n_stream_bytes:
  assumes law: "\<And>s. poll_body (body_of s) = map_prod (stream_outcome (ndjson_frame to_vec)) body_of (poll_next s)"
    and "\<forall>t \<in> set (items_n poll_next n s). \<exists>bs. to_vec t = Inr bs"
  shows "data_bytes (poll_n poll_body n (body_of s)) =
    concat (map (\<lambda>t. projr (to_vec t) @ [newline]) (items_n poll_next n s))"
  using assms(2)
proof (induction n arbitrary: s)
  case (Suc n)
  obtain p s' where poll: "poll_next s = (p, s')" by fastforce
  then have body: "poll_body (body_of s) = (stream_outcome (ndjson_frame to_vec) p, body_of s')"
    by (simp add: law)
  consider "p = Pending" | "p = Ready None" | t where "p = Ready (Some t)"
    by (metis poll.exhaust option.exhaust)
  then show ?case
  proof cases
    case (3 t)
    then obtain bs where "to_vec t = Inr bs" using Suc.prems poll by auto
    then show ?thesis using Suc.IH [of s'] Suc.prems poll body 3 by (simp add: ndjson_frame_def)
  qed (use Suc.IH [of s'] Suc.prems poll body in auto)
qed simp

lemma complete_lines_items:
  "\<forall>l \<in> set ls. newline \<notin> set l \<Longrightarrow> complete_lines (concat (map (\<lambda>l. l @ [newline]) ls)) = ls"
proof (induction ls)
  case Nil
  show ?case by (simp add: complete_lines_def)
next
  case (Cons l ls)
  then show ?case by (simp add: complete_lines_terminated)
qed

text \<open>
  C19: What the NDJSON builder sends, the NDJSON parser reads back: for every item whose serialized
  form has no newline and deserializes to the item, the bytes of the request body, however many
  polls are made of it, parse to exactly the items that the stream has yielded, in order.
\<close>

theorem ndjson_request_roundtrip:
  assumes built: "builder_ndjson H map_stream stream_body to_vec data self = Inr br"
    and law: "\<And>s. poll_body (stream_body (map_stream (ndjson_frame to_vec) s)) =
      map_prod (stream_outcome (ndjson_frame to_vec)) (\<lambda>s. stream_body (map_stream (ndjson_frame to_vec) s))
        (poll_next s)"
    and serde: "\<forall>t \<in> set (items_n poll_next n data).
      \<exists>bs. to_vec t = Inr bs \<and> newline \<notin> set bs \<and> from_slice bs = Inr t"
  shows "ndjson_reference from_slice (data_bytes (poll_n poll_body n (br_body br))) =
    map Inr (items_n poll_next n data)"
proof -
  have "br_body br = stream_body (map_stream (ndjson_frame to_vec) data)"
    using built by (auto simp: builder_ndjson_def builder_body_def br_body_def split: sum.splits)
  moreover have "data_bytes (poll_n poll_body n (stream_body (map_stream (ndjson_frame to_vec) data))) =
      concat (map (\<lambda>l. l @ [newline]) (map (\<lambda>t. projr (to_vec t)) (items_n poll_next n data)))"
    using poll_n_stream_bytes [of poll_body "\<lambda>s. stream_body (map_stream (ndjson_frame to_vec) s)" to_vec poll_next,
        OF law] serde by (fastforce simp: comp_def)
  moreover have "\<forall>l \<in> set (map (\<lambda>t. projr (to_vec t)) (items_n poll_next n data)). newline \<notin> set l"
    using serde by auto
  ultimately have "ndjson_reference from_slice (data_bytes (poll_n poll_body n (br_body br))) =
      map (\<lambda>l. foreign (from_slice l)) (map (\<lambda>t. projr (to_vec t)) (items_n poll_next n data))"
    by (simp only: ndjson_reference_def complete_lines_items)
  also have "\<dots> = map Inr (items_n poll_next n data)"
    using serde by auto
  finally show ?thesis .
qed

text \<open>A stream of two items with a pause, and a script of outcomes as the body over it.\<close>

fun poll_items :: "'t option poll list \<Rightarrow> 't option poll \<times> 't option poll list" where
  "poll_items [] = (Ready None, [])"
| "poll_items (p # ps) = (p, ps)"

theorem ndjson_request_roundtrip_witness:
  "\<exists>br. builder_ndjson (parts_builder () (1 :: nat) (sample_uri None)) (\<lambda>f. map (stream_outcome f)) id Inr
      [Ready (Some [49]), Pending, Ready (Some [50, 51])]
      (client_request (parts_builder () 1 (sample_uri None)) () ''POST'' (Inr (sample_uri None))) = Inr br \<and>
    ndjson_reference Inr (data_bytes (poll_n poll_script 3 (br_body br))) =
      map Inr (items_n poll_items 3 [Ready (Some [49]), Pending, Ready (Some [50, 51])])"
proof -
  let ?H = "parts_builder () (1 :: nat) (sample_uri None)"
  let ?self = "client_request ?H () ''POST'' (Inr (sample_uri None))"
  let ?data = "[Ready (Some [49]), Pending, Ready (Some [50, 51])] :: byte list option poll list"
  have "hb_parts ?H (brb_inner ?self) = Inr \<lparr>rp_method = ''POST'', rp_uri = sample_uri None, rp_version = 11,
      rp_headers = [], rp_extensions = ()\<rparr>"
    by (simp add: parts_builder_def client_request_def builder_new_def)
  then obtain br where built: "builder_ndjson ?H (\<lambda>f. map (stream_outcome f)) id Inr ?data ?self = Inr br"
    by (simp add: builder_ndjson_def Let_def
        builder_laws.body_with_content_type [OF parts_builder.builder_laws_axioms] content_types_valid)
  have law: "poll_script (id (map (stream_outcome f) s)) =
      map_prod (stream_outcome f) (\<lambda>s. id (map (stream_outcome f) s)) (poll_items s)"
    for f :: "byte list \<Rightarrow> nat error + byte list frame" and s
    by (cases s) simp_all
  show ?thesis
    using ndjson_request_roundtrip [of ?H "\<lambda>f. map (stream_outcome f)" id Inr ?data ?self br poll_script poll_items 3 Inr,
        OF built law] built
    by (simp add: numeral_3_eq_3)
qed

end
