(* ===== verification/Responses.thy ===== *)
theory Responses
  imports Client SseFormat
begin

text \<open>
  The helper methods of responses (\<open>src/response_helpers.rs\<close>).

  Collecting a body and turning it into a stream of data are adapters of \<open>http_body_util\<close>: the
  parameters \<open>collect\<close>, \<open>to_contiguous\<close> and \<open>poll_data\<close>.  A collected body is one contiguous
  sequence of bytes; \<open>show_utf8_error\<close> is the text of \<open>FromUtf8Error\<close> for the bytes it was made of.
\<close>

section \<open>The methods\<close>

definition response_bytes ::
  "('nb \<Rightarrow> ('w, 'x, 'coll) io) \<Rightarrow> ('coll \<Rightarrow> byte list) \<Rightarrow> ('ext, 'nb) response \<Rightarrow> ('w, 'x, byte list) io" where
  "response_bytes collect to_contiguous self =
     io_bind (collect (rs_body self)) (\<lambda>collected. io_return (to_contiguous collected))"

definition response_text ::
  "('nb \<Rightarrow> ('w, 'x, 'coll) io) \<Rightarrow> ('coll \<Rightarrow> byte list) \<Rightarrow> (byte list \<Rightarrow> string) \<Rightarrow>
   ('ext, 'nb) response \<Rightarrow> ('w, 'x, uchar list) io" where
  "response_text collect to_contiguous show_utf8_error self =
     io_bind (response_bytes collect to_contiguous self) (\<lambda>bytes.
       case from_utf8 bytes of
         None \<Rightarrow> io_error (Msg (''UTF-8 conversion failed: '' @ show_utf8_error bytes))
       | Some s \<Rightarrow> io_return s)"

definition response_json ::
  "('nb \<Rightarrow> ('w, 'x, 'coll) io) \<Rightarrow> ('coll \<Rightarrow> byte list) \<Rightarrow> (byte list \<Rightarrow> 'x + 't) \<Rightarrow>
   ('ext, 'nb) response \<Rightarrow> ('w, 'x, 't) io" where
  "response_json collect to_contiguous from_slice self =
     io_bind (response_bytes collect to_contiguous self) (\<lambda>bytes w. (foreign (from_slice bytes), w))"

text \<open>The closure of \<open>bytes_stream\<close>, and the polls of the mapped stream of data.\<close>

fun bytes_item :: "'d buf \<Rightarrow> 'x error + 'd \<Rightarrow> 'x error + byte list" where
  "bytes_item B (Inr data) = Inr (to_bytes B data)"
| "bytes_item B (Inl e) = Inl e"

definition bytes_stream_poll ::
  "'d buf \<Rightarrow> ('ds \<Rightarrow> ('x error + 'd) option poll \<times> 'ds) \<Rightarrow> 'ds \<Rightarrow> ('x error + byte list) option poll \<times> 'ds" where
  "bytes_stream_poll B poll_data s =
     (case poll_data s of
        (Ready (Some res), s') \<Rightarrow> (Ready (Some (bytes_item B res)), s')
      | (Ready None, s') \<Rightarrow> (Ready None, s')
      | (Pending, s') \<Rightarrow> (Pending, s'))"

definition response_bytes_stream :: "('nb \<Rightarrow> 'ds) \<Rightarrow> ('ext, 'nb) response \<Rightarrow> 'ds" where
  "response_bytes_stream into_data_stream self = into_data_stream (rs_body self)"

definition response_sse_stream ::
  "'b buf \<Rightarrow> (('b frame \<Rightarrow> byte list frame) \<Rightarrow> 'nb \<Rightarrow> 'mapped) \<Rightarrow> ('mapped \<Rightarrow> 'body) \<Rightarrow>
   ('ext, 'nb) response \<Rightarrow> 'body sse_stream" where
  "response_sse_stream B map_frame box_new self = sse_new B map_frame box_new (rs_body self)"

definition response_ndjson_stream ::
  "'b buf \<Rightarrow> (('b frame \<Rightarrow> byte list frame) \<Rightarrow> 'nb \<Rightarrow> 'mapped) \<Rightarrow> ('mapped \<Rightarrow> 'body) \<Rightarrow>
   ('ext, 'nb) response \<Rightarrow> ('body, 'x, 'item) ndjson_stream" where
  "response_ndjson_stream B map_frame box_new self = ndjson_new B map_frame box_new (rs_body self)"

section \<open>Properties\<close>

text \<open>
  C31: \<open>text\<close> gives a string just when the collected body is the UTF-8 form of that string, so nothing
  is lost or replaced; any other body is an error with the message of the code, and a body that
  cannot be collected fails with its own error.
\<close>

theorem response_text_exact:
  "response_text collect to_contiguous show_utf8_error resp w = (Inr s, w') \<longleftrightarrow>
   (\<exists>c. collect (rs_body resp) w = (Inr c, w') \<and> str_bytes s = to_contiguous c \<and> list_all scalar s)"
proof -
  have "response_text collect to_contiguous show_utf8_error resp w = (Inr s, w') \<longleftrightarrow>
      (\<exists>c. collect (rs_body resp) w = (Inr c, w') \<and> from_utf8 (to_contiguous c) = Some s)"
    by (auto simp: response_text_def response_bytes_def io_ok io_error_def split: option.splits)
  then show ?thesis by (simp add: from_utf8_iff list_all_iff)
qed

text \<open>
  A text that was sent with the text builder and comes back as the body of a response is read
  back by \<open>text\<close> as it was.
\<close>

theorem text_roundtrip:
  assumes "builder_text H full text self = Inr br" and "\<forall>u \<in> set text. scalar u"
    and "\<And>bs. collected (full bs) = bs"
  shows "response_text (\<lambda>body w. (Inr body, w)) collected show_utf8_error
      \<lparr>rs_parts = parts, rs_body = br_body br\<rparr> w = (Inr text, w)"
proof -
  have "br_body br = full (str_bytes text)"
    using assms(1) by (auto simp: builder_text_def builder_body_def br_body_def Let_def split: sum.splits)
  then show ?thesis using assms(2,3)
    by (simp add: response_text_def response_bytes_def io_run from_utf8_str_bytes)
qed

text \<open>The parts of a plain answer.\<close>

definition sample_parts :: "unit res_parts" where
  "sample_parts = \<lparr>sp_status = 200, sp_headers = [], sp_extensions = ()\<rparr>"

theorem text_roundtrip_witness:
  "\<exists>br. builder_text (parts_builder () (1 :: nat) (sample_uri None)) id [104, 8364]
      (client_request (parts_builder () 1 (sample_uri None)) () ''POST'' (Inr (sample_uri None))) = Inr br \<and>
    response_text (\<lambda>body w. (Inr body, w)) id (\<lambda>_. []) \<lparr>rs_parts = sample_parts, rs_body = br_body br\<rparr> (0 :: nat) =
      (Inr [104, 8364] :: nat error + uchar list, 0)"
proof -
  let ?H = "parts_builder () (1 :: nat) (sample_uri None)"
  let ?self = "client_request ?H () ''POST'' (Inr (sample_uri None))"
  have "hb_parts ?H (brb_inner ?self) = Inr \<lparr>rp_method = ''POST'', rp_uri = sample_uri None, rp_version = 11,
      rp_headers = [], rp_extensions = ()\<rparr>"
    by (simp add: parts_builder_def client_request_def builder_new_def)
  then obtain br where built: "builder_text ?H id [104, 8364] ?self = Inr br"
    by (simp add: builder_text_def Let_def
        builder_laws.body_with_content_type [OF parts_builder.builder_laws_axioms] content_types_valid)
  show ?thesis
    using text_roundtrip [OF built, of id "\<lambda>_. []" sample_parts "0 :: nat"] built
    by (auto simp: scalar_def)
qed

end
