(* ===== verification/H3Session.thy ===== *)
theory H3Session
  imports H3Adapter
begin

text \<open>
  The HTTP/3 application plugin (\<open>navar-h3/src/lib.rs\<close>): handshake, session and response body.

  The client half of the \<open>h3\<close> crate is the record \<open>h3_client\<close>, a parameter of every
  definition.  A request body is known by \<open>next_frame\<close>, what awaiting \<open>body.frame()\<close> gives; the
  loop over it need not end, so \<open>None\<close> as the value of \<open>h3_send_body\<close> is a body that never ends.
\<close>

section \<open>The client of the h3 crate\<close>

record ('ext, 'conn, 'driver, 'sender, 'stream, 'rb, 'w, 'x) h3_client =
  h3c_new :: "'conn \<Rightarrow> 'w \<Rightarrow> ('x + 'driver \<times> 'sender) \<times> 'w"
  h3c_send_request :: "('ext, unit) request \<Rightarrow> 'sender \<Rightarrow> 'w \<Rightarrow> ('x + 'stream) \<times> 'sender \<times> 'w"
  h3c_send_data :: "byte list \<Rightarrow> 'stream \<Rightarrow> 'w \<Rightarrow> ('x + unit) \<times> 'stream \<times> 'w"
  h3c_finish :: "'stream \<Rightarrow> 'w \<Rightarrow> ('x + unit) \<times> 'stream \<times> 'w"
  h3c_recv_response :: "'stream \<Rightarrow> 'w \<Rightarrow> ('x + ('ext, unit) response) \<times> 'stream \<times> 'w"
  h3c_poll_recv_data :: "'stream \<Rightarrow> 'w \<Rightarrow> ('x + 'rb option) poll \<times> 'stream \<times> 'w"
  h3c_wait_idle :: "'driver \<Rightarrow> 'w \<Rightarrow> 'x \<times> 'w"
  h3c_is_no_error :: "'x \<Rightarrow> bool"
  h3c_display :: "'x \<Rightarrow> string"

section \<open>Plugin and session\<close>

record 'sender h3_session =
  h3s_sender :: 'sender

definition h3_handshake ::
  "('ext, ('conn, 'fb, 'fs, 'fr) h3_connection, 'driver, 'sender, 'stream, 'rb, 'w, 'x) h3_client \<Rightarrow>
   'conn \<Rightarrow> ('w, 'x, 'sender h3_session \<times> 'driver) io" where
  "h3_handshake C conn w =
     (let h3_conn = h3_connection_new conn in
      case h3c_new C h3_conn w of
        (Inl e, w') \<Rightarrow> (Inl (Foreign e), w')
      | (Inr (driver, sender), w') \<Rightarrow> (Inr (\<lparr>h3s_sender = sender\<rparr>, driver), w'))"

definition h3_app ::
  "('ext, ('conn, 'fb, 'fs, 'fr) h3_connection, 'driver, 'sender, 'stream, 'rb, 'w, 'x) h3_client \<Rightarrow>
   ('conn, 'sender h3_session, 'driver, 'w, 'x) application_plugin" where
  "h3_app C = \<lparr>handshake = h3_handshake C\<rparr>"

text \<open>The future that the runtime spawns; \<open>eprintln\<close> writes a line to standard error.\<close>

definition h3_driver_fut ::
  "('ext, 'c, 'driver, 'sender, 'stream, 'rb, 'w, 'x) h3_client \<Rightarrow> (string \<Rightarrow> 'w \<Rightarrow> 'w) \<Rightarrow>
   'driver \<Rightarrow> 'w \<Rightarrow> 'w" where
  "h3_driver_fut C eprintln driver w =
     (case h3c_wait_idle C driver w of
        (err, w') \<Rightarrow>
          if \<not> h3c_is_no_error C err then eprintln (''H3 Client Driver Error: '' @ h3c_display C err) w' else w')"

record 'stream h3_response_body =
  h3b_stream :: 'stream

text \<open>The loop of \<open>send_request\<close>; \<open>into\<close> is the conversion of body errors.\<close>

partial_function (option) h3_send_body ::
  "('ext, 'c, 'driver, 'sender, 'stream, 'rb, 'w, 'x) h3_client \<Rightarrow> 'd buf \<Rightarrow> ('e \<Rightarrow> 'x error) \<Rightarrow>
   ('b \<Rightarrow> ('e + 'd frame) option \<times> 'b) \<Rightarrow> 'b \<Rightarrow> 'stream \<Rightarrow> 'w \<Rightarrow> (('x error + 'stream) \<times> 'w) option" where
  "h3_send_body C B into next_frame body stream w =
     (case next_frame body of
        (None, body') \<Rightarrow> Some (Inr stream, w)
      | (Some (Inl err), body') \<Rightarrow> Some (Inl (into err), w)
      | (Some (Inr frame), body') \<Rightarrow>
          (case into_data frame of
             Inl _ \<Rightarrow> h3_send_body C B into next_frame body' stream w
           | Inr data \<Rightarrow>
               (let chunk = buf_chunk B data; bytes = chunk in
                case h3c_send_data C bytes stream w of
                  (Inl e, _, w') \<Rightarrow> Some (Inl (Foreign e), w')
                | (Inr _, stream', w') \<Rightarrow> h3_send_body C B into next_frame body' stream' w')))"

definition h3_session_send_request ::
  "('ext, 'c, 'driver, 'sender, 'stream, 'rb, 'w, 'x) h3_client \<Rightarrow> 'd buf \<Rightarrow> ('e \<Rightarrow> 'x error) \<Rightarrow>
   ('b \<Rightarrow> ('e + 'd frame) option \<times> 'b) \<Rightarrow> ('ext, 'b) request \<Rightarrow> 'sender h3_session \<Rightarrow> 'w \<Rightarrow>
   (('x error + ('ext, 'stream h3_response_body) response) \<times> 'sender h3_session \<times> 'w) option" where
  "h3_session_send_request C B into next_frame request session w =
     (let req = \<lparr>rq_parts = rq_parts request, rq_body = ()\<rparr> in
      case h3c_send_request C req (h3s_sender session) w of
        (Inl e, sender, w1) \<Rightarrow> Some (Inl (Foreign e), session\<lparr>h3s_sender := sender\<rparr>, w1)
      | (Inr stream, sender, w1) \<Rightarrow>
          (let session = session\<lparr>h3s_sender := sender\<rparr> in
           case h3_send_body C B into next_frame (rq_body request) stream w1 of
             None \<Rightarrow> None
           | Some (Inl e, w2) \<Rightarrow> Some (Inl e, session, w2)
           | Some (Inr stream, w2) \<Rightarrow>
               Some (case h3c_finish C stream w2 of
                  (Inl e, _, w3) \<Rightarrow> (Inl (Foreign e), session, w3)
                | (Inr _, stream, w3) \<Rightarrow>
                    (case h3c_recv_response C stream w3 of
                       (Inl e, _, w4) \<Rightarrow> (Inl (Foreign e), session, w4)
                     | (Inr response, stream, w4) \<Rightarrow>
                         (Inr \<lparr>rs_parts = rs_parts response, rs_body = \<lparr>h3b_stream = stream\<rparr>\<rparr>, session, w4)))))"

section \<open>The response body\<close>

datatype 'x h3_error = H3Error "'x error"

fun h3_error_fmt :: "('x error \<Rightarrow> string) \<Rightarrow> 'x h3_error \<Rightarrow> string" where
  "h3_error_fmt fmt (H3Error e) = fmt e"

fun h3_error_source :: "('x error \<Rightarrow> 'y option) \<Rightarrow> 'x h3_error \<Rightarrow> 'y option" where
  "h3_error_source source (H3Error e) = source e"

definition h3_poll_frame ::
  "('ext, 'c, 'driver, 'sender, 'stream, 'rb, 'w, 'x) h3_client \<Rightarrow> 'rb buf \<Rightarrow> 'stream h3_response_body \<times> 'w \<Rightarrow>
   (byte list, 'x h3_error) outcome \<times> ('stream h3_response_body \<times> 'w)" where
  "h3_poll_frame C B = (\<lambda>(body, w).
     case h3c_poll_recv_data C (h3b_stream body) w of
       (Ready (Inr (Some bytes)), stream, w') \<Rightarrow>
         (let (chunk, _) = buf_copy_to_bytes B (buf_remaining B bytes) bytes
          in (Ready (Some (Inr (DataFrame chunk))), body\<lparr>h3b_stream := stream\<rparr>, w'))
     | (Ready (Inr None), stream, w') \<Rightarrow> (Ready None, body\<lparr>h3b_stream := stream\<rparr>, w')
     | (Ready (Inl e), stream, w') \<Rightarrow>
         (Ready (Some (Inl (H3Error (Foreign e)))), body\<lparr>h3b_stream := stream\<rparr>, w')
     | (Pending, stream, w') \<Rightarrow> (Pending, body\<lparr>h3b_stream := stream\<rparr>, w'))"

section \<open>What the loop sends\<close>

text \<open>\<open>body_run next body fs fin\<close>: the body yields the frames \<open>fs\<close> and then ends, or fails with an error.\<close>

inductive body_run :: "('b \<Rightarrow> ('e + 'd frame) option \<times> 'b) \<Rightarrow> 'b \<Rightarrow> 'd frame list \<Rightarrow> 'e option \<Rightarrow> bool"
  for next_frame where
  run_end: "next_frame body = (None, body') \<Longrightarrow> body_run next_frame body [] None"
| run_error: "next_frame body = (Some (Inl e), body') \<Longrightarrow> body_run next_frame body [] (Some e)"
| run_frame: "next_frame body = (Some (Inr fr), body') \<Longrightarrow> body_run next_frame body' fs fin \<Longrightarrow>
    body_run next_frame body (fr # fs) fin"

fun frame_datas :: "'d frame list \<Rightarrow> 'd list" where
  "frame_datas [] = []"
| "frame_datas (DataFrame d # fs) = d # frame_datas fs"
| "frame_datas (TrailersFrame h # fs) = frame_datas fs"

text \<open>The sends of a list of pieces, one after the other, up to the first failure.\<close>

fun send_all ::
  "('ext, 'c, 'driver, 'sender, 'stream, 'rb, 'w, 'x) h3_client \<Rightarrow> byte list list \<Rightarrow> 'stream \<Rightarrow>
   ('w, 'x, 'stream) io" where
  "send_all C [] stream w = (Inr stream, w)"
| "send_all C (c # cs) stream w =
     (case h3c_send_data C c stream w of
        (Inl e, _, w') \<Rightarrow> (Inl (Foreign e), w')
      | (Inr _, stream', w') \<Rightarrow> send_all C cs stream' w')"

definition body_end :: "('e \<Rightarrow> 'x error) \<Rightarrow> 'e option \<Rightarrow> 'a \<Rightarrow> ('w, 'x, 'a) io" where
  "body_end into fin a = (case fin of None \<Rightarrow> io_return a | Some e \<Rightarrow> io_error (into e))"

lemma h3_send_body_run:
  assumes "body_run next_frame body fs fin"
  shows "h3_send_body C B into next_frame body stream w =
    Some (io_bind (send_all C (map (buf_chunk B) (frame_datas fs)) stream) (body_end into fin) w)"
  using assms
proof (induction arbitrary: stream w rule: body_run.induct)
  case (run_end body body')
  then show ?case
    by (simp add: h3_send_body.simps [of C B into next_frame body] io_run body_end_def)
next
  case (run_error body e body')
  then show ?case
    by (simp add: h3_send_body.simps [of C B into next_frame body] io_run body_end_def)
next
  case (run_frame body fr body' fs fin)
  then show ?case
    by (cases fr) (simp_all add: h3_send_body.simps [of C B into next_frame body] Let_def io_run
        split: prod.split sum.split)
qed

text \<open>
  C16: For every request body that comes to an end, with or without an error, the loop that sends
  it returns, and it sends exactly the first chunk of every data frame, in order and each once,
  up to the first failure; trailers are not sent. If all sends succeed, the result is the
  stream, or the error of the body.
\<close>

theorem h3_send_body_sends_chunks:
  assumes "body_run next_frame body fs fin"
  shows "h3_send_body C B into next_frame body stream w =
    Some (case send_all C (map (buf_chunk B) (frame_datas fs)) stream w of
        (Inl e, w') \<Rightarrow> (Inl e, w')
      | (Inr stream', w') \<Rightarrow> (case fin of None \<Rightarrow> (Inr stream', w') | Some e \<Rightarrow> (Inl (into e), w')))"
  using h3_send_body_run [OF assms, of C B into stream w]
  by (simp add: io_run body_end_def
      split: prod.split sum.split option.split)

text \<open>A body that plays back its frames, and a client whose streams record what is sent.\<close>

fun next_of_list :: "('e + 'd frame) list \<Rightarrow> ('e + 'd frame) option \<times> ('e + 'd frame) list" where
  "next_of_list [] = (None, [])"
| "next_of_list (r # rs) = (Some r, rs)"

lemma body_run_list: "body_run next_of_list (map Inr fs) fs None"
  by (induction fs) (auto intro: run_end run_frame)

type_synonym sample_h3 = "(unit, unit, unit, nat, byte list, byte list, nat, nat) h3_client"

definition sample_client :: sample_h3 where
  "sample_client =
     \<lparr>h3c_new = (\<lambda>c w. (Inr ((), 0), w)), h3c_send_request = (\<lambda>req sender w. (Inr [], sender, w + 1)),
      h3c_send_data = (\<lambda>bs s w. (Inr (), s @ bs, w)), h3c_finish = (\<lambda>s w. (Inr (), s, w)),
      h3c_recv_response = (\<lambda>s w.
        (Inr \<lparr>rs_parts = \<lparr>sp_status = 200, sp_headers = [], sp_extensions = ()\<rparr>, rs_body = ()\<rparr>, s, w)),
      h3c_poll_recv_data = (\<lambda>s w. (if s = [] then (Ready (Inr None), s, w)
                                   else (Ready (Inr (Some s)), [], w))),
      h3c_wait_idle = (\<lambda>d w. (0, w)), h3c_is_no_error = (\<lambda>e. e = 0), h3c_display = (\<lambda>e. [])\<rparr>"

theorem h3_send_body_sends_chunks_witness:
  "h3_send_body sample_client rope_buf Foreign next_of_list
     [Inr (DataFrame [[1, 2], [3]]), Inr (TrailersFrame []), Inr (DataFrame [[4]])] [] 0 =
     Some (Inr [1, 2, 4], 0)"
  using h3_send_body_sends_chunks [OF body_run_list
      [of "[DataFrame [[1, 2], [3]], TrailersFrame [], DataFrame [[4]]]"],
      of sample_client rope_buf Foreign "[]" 0]
  by (simp add: sample_client_def rope_buf_def)

section \<open>What is lost\<close>

lemma sent_all:
  assumes "\<And>bs s w u s' w'. h3c_send_data C bs s w = (Inr u, s', w') \<Longrightarrow> sent s' = sent s @ bs"
  shows "send_all C cs s w = (Inr s', w') \<Longrightarrow> sent s' = sent s @ concat cs"
  by (induction cs arbitrary: s w) (auto dest: assms split: prod.splits sum.splits)

context buf_laws
begin

text \<open>The first chunks make up all the bytes just when every buffer is one chunk.\<close>

lemma chunks_length: "length (concat (map (buf_chunk B) ds)) \<le> length (concat (map content ds))"
proof (induction ds)
  case (Cons d ds)
  then show ?case using chunk_length [of d] by (simp add: remaining_content add_mono)
qed simp

lemma chunks_all_iff:
  "concat (map (buf_chunk B) ds) = concat (map content ds) \<longleftrightarrow>
   list_all (\<lambda>d. buf_chunk B d = content d) ds"
proof (induction ds)
  case (Cons d ds)
  have "buf_chunk B d = content d" if eq: "concat (map (buf_chunk B) (d # ds)) = concat (map content (d # ds))"
  proof -
    have "length (content d) \<le> length (buf_chunk B d)"
      using arg_cong [OF eq, of length] chunks_length [of ds] by simp
    then show ?thesis
      using chunk_length [of d] by (simp add: chunk_eq_content_iff remaining_content)
  qed
  then show ?case using Cons by auto
qed simp

end

text \<open>
  C36: When the loop has sent a body without error, the stream has taken all the data of the body
  just when every data frame was one contiguous chunk; the rest of a frame made of several
  chunks is lost silently.
\<close>

theorem h3_body_complete_iff_contiguous:
  assumes "\<And>bs s w u s' w'. h3c_send_data C bs s w = (Inr u, s', w') \<Longrightarrow> sent s' = sent s @ bs"
    and "buf_laws B content" and "body_run next_frame body fs None"
    and "h3_send_body C B into next_frame body stream w = Some (Inr stream', w')"
  shows "sent stream' = sent stream @ concat (map content (frame_datas fs)) \<longleftrightarrow>
    list_all (\<lambda>d. buf_chunk B d = content d) (frame_datas fs)"
proof -
  have "send_all C (map (buf_chunk B) (frame_datas fs)) stream w = (Inr stream', w')"
    using h3_send_body_run [OF assms(3), of C B into stream w] assms(4)
    by (auto simp: io_run body_end_def split: prod.splits sum.splits)
  from sent_all [of C sent, OF assms(1) this] show ?thesis
    by (simp add: buf_laws.chunks_all_iff [OF assms(2)])
qed

text \<open>A frame of two chunks: the second is not sent.\<close>

theorem h3_body_complete_iff_contiguous_witness:
  "\<exists>stream' w'. h3_send_body sample_client rope_buf Foreign next_of_list
       (map Inr [DataFrame [[1], [2]]]) [] 0 = Some (Inr stream', w') \<and> stream' \<noteq> [1, 2]"
proof -
  let ?fs = "[DataFrame [[1 :: byte], [2]]]"
  have send: "h3_send_body sample_client rope_buf Foreign next_of_list (map Inr ?fs) [] 0 = Some (Inr [1], 0)"
    using h3_send_body_run [OF body_run_list [of ?fs], of sample_client rope_buf Foreign "[]" 0]
    by (simp add: sample_client_def rope_buf_def io_run body_end_def)
  have "[1 :: byte] \<noteq> [1, 2]"
    using h3_body_complete_iff_contiguous [OF _ rope.buf_laws_axioms body_run_list send, of "\<lambda>s. s"]
    by (simp add: sample_client_def rope_buf_def)
  with send show ?thesis by blast
qed

section \<open>The request as a whole\<close>

text \<open>
  When the body of a request fails, the request fails with that error after what the body had
  yielded was sent; the stream is dropped as it stands, neither finished nor asked for the
  response: the result is the same whatever those two would do.
\<close>

theorem h3_request_body_error:
  assumes "h3c_send_request C \<lparr>rq_parts = rq_parts request, rq_body = ()\<rparr> (h3s_sender session) w =
      (Inr stream, sender, w1)"
    and "body_run next_frame (rq_body request) fs (Some e)"
    and "send_all C (map (buf_chunk B) (frame_datas fs)) stream w1 = (Inr stream', w2)"
  shows "h3_session_send_request (C\<lparr>h3c_finish := f, h3c_recv_response := r\<rparr>) B into next_frame
      request session w = Some (Inl (into e), \<lparr>h3s_sender = sender\<rparr>, w2)"
proof -
  let ?C = "C\<lparr>h3c_finish := f, h3c_recv_response := r\<rparr>"
  have "send_all ?C cs s v = send_all C cs s v" for cs s v
    by (induction cs arbitrary: s v) (simp_all split: prod.split sum.split)
  then have "h3_send_body ?C B into next_frame (rq_body request) stream w1 = Some (Inl (into e), w2)"
    using h3_send_body_run [OF assms(2), of ?C B into stream w1] assms(3)
    by (simp add: io_run body_end_def)
  then show ?thesis using assms(1) by (simp add: h3_session_send_request_def Let_def)
qed

theorem h3_request_body_error_witness:
  "h3_session_send_request sample_client bytes_buf Foreign next_of_list
     \<lparr>rq_parts = undefined, rq_body = [Inr (DataFrame [1]), Inl 9]\<rparr> \<lparr>h3s_sender = 5\<rparr> 0 =
     Some (Inl (Foreign 9), \<lparr>h3s_sender = 5\<rparr>, 1)"
proof -
  have run: "body_run next_of_list [Inr (DataFrame [1]), Inl 9] [DataFrame [1]] (Some (9 :: nat))"
    by (rule run_frame [where body' = "[Inl 9]"], simp, rule run_error [where body' = "[]"], simp)
  show ?thesis
    using h3_request_body_error [where C = sample_client and B = bytes_buf and into = Foreign
        and request = "\<lparr>rq_parts = undefined, rq_body = [Inr (DataFrame [1]), Inl 9]\<rparr>"
        and session = "\<lparr>h3s_sender = 5\<rparr>" and next_frame = next_of_list and w = 0 and stream = "[]"
        and sender = 5 and ?w1.0 = 1 and fs = "[DataFrame [1]]" and e = 9 and stream' = "[1]" and ?w2.0 = 1
        and f = "h3c_finish sample_client" and r = "h3c_recv_response sample_client"] run
    by (simp add: sample_client_def bytes_buf_def)
qed

section \<open>The response body\<close>

text \<open>What the h3 stream answers to a number of polls, and how the body presents an answer.\<close>

fun recv_n ::
  "('ext, 'c, 'driver, 'sender, 'stream, 'rb, 'w, 'x) h3_client \<Rightarrow> nat \<Rightarrow> 'stream \<Rightarrow> 'w \<Rightarrow>
   ('x + 'rb option) poll list" where
  "recv_n C 0 stream w = []"
| "recv_n C (Suc n) stream w =
     (case h3c_poll_recv_data C stream w of (p, stream', w') \<Rightarrow> p # recv_n C n stream' w')"

fun present :: "('rb \<Rightarrow> byte list) \<Rightarrow> ('x + 'rb option) poll \<Rightarrow> (byte list, 'x h3_error) outcome" where
  "present content Pending = Pending"
| "present content (Ready (Inl e)) = Ready (Some (Inl (H3Error (Foreign e))))"
| "present content (Ready (Inr None)) = Ready None"
| "present content (Ready (Inr (Some b))) = Ready (Some (Inr (DataFrame (content b))))"

lemma h3_body_polls:
  assumes "buf_laws B content"
  shows "poll_n (h3_poll_frame C B) n (body, w) = map (present content) (recv_n C n (h3b_stream body) w)"
proof (induction n arbitrary: body w)
  case (Suc n)
  obtain p stream' w' where poll: "h3c_poll_recv_data C (h3b_stream body) w = (p, stream', w')"
    by (metis prod_cases3)
  have "h3_poll_frame C B (body, w) = (present content p, body\<lparr>h3b_stream := stream'\<rparr>, w')"
    using poll buf_laws.to_bytes_content [OF assms, unfolded to_bytes_def]
    by (cases "(content, p)" rule: present.cases)
      (simp_all add: h3_poll_frame_def Let_def case_prod_unfold)
  then show ?case using poll Suc [of "body\<lparr>h3b_stream := stream'\<rparr>" w'] by simp
qed simp

text \<open>
  C35: The response body passes on what the h3 stream answers, poll by poll: each buffer becomes one
  data frame with all its bytes, however many chunks it has, the end of the data is the end of
  the body, an error is wrapped; no frame with trailers ever appears.
\<close>

theorem h3_response_body_exact:
  assumes "buf_laws B content"
  shows "poll_n (h3_poll_frame C B) n (body, w) = map (present content) (recv_n C n (h3b_stream body) w)"
  by (rule h3_body_polls [OF assms])

theorem h3_response_body_exact_witness:
  "poll_n (h3_poll_frame sample_client bytes_buf) 2 (\<lparr>h3b_stream = [1, 2]\<rparr>, 0) =
     [Ready (Some (Inr (DataFrame [1, 2]))), Ready None]"
  using h3_response_body_exact [OF contiguous.buf_laws_axioms, of sample_client 2 "\<lparr>h3b_stream = [1, 2]\<rparr>" 0]
  by (simp add: sample_client_def numeral_2_eq_2)

end
