(* ===== verification/H3Responses.thy ===== *)
theory H3Responses
  imports Responses H3Session
begin

text \<open>
  A streamed response over HTTP/3: the body of \<open>navar-h3/src/lib.rs\<close>, normalized by
  \<open>BaseService::handle\<close> and read through \<open>sse_stream\<close> or \<open>ndjson_stream\<close> of
  \<open>src/response_helpers.rs\<close>.
\<close>

text \<open>The buffers that the h3 stream has handed out, and the bytes in them.\<close>

fun received_bytes :: "('rb \<Rightarrow> byte list) \<Rightarrow> ('x + 'rb option) poll list \<Rightarrow> byte list" where
  "received_bytes content [] = []"
| "received_bytes content (Ready (Inr (Some b)) # ps) = content b @ received_bytes content ps"
| "received_bytes content (p # ps) = received_bytes content ps"

lemma data_bytes_present: "data_bytes (map (present content) ps) = received_bytes content ps"
  by (induction content ps rule: received_bytes.induct) auto

text \<open>Boxing the data and unpacking it again, and converting errors, leaves the bytes as they are.\<close>

lemma data_bytes_unboxed:
  assumes "\<And>d. unbox (box d) = d"
  shows "data_bytes (map (\<lambda>p. map_outcome (\<lambda>fr. map_data unbox (map_data box fr)) into (f p)) ps) =
    data_bytes (map f ps)"
proof (induction ps)
  case (Cons p ps)
  then show ?case by (cases "f p" rule: outcome_cases) (simp_all add: assms)
qed simp

lemma poll_n_mapped:
  assumes "\<And>b. poll' (mapped b) = map_prod g mapped (poll b)"
  shows "poll_n poll' n (mapped b) = map g (poll_n poll n b)"
  by (induction n arbitrary: b) (simp_all add: assms)

text \<open>What the parsers' body answers is what the h3 stream answers, as the body presents it.\<close>

lemma h3_normalized_polls:
  assumes kit: "body_kit_laws kit (h3_poll_frame C B) poll1 poll2 poll_nb"
    and bufs: "buf_laws B content" "buf_laws NB ncontent" and box: "\<And>d. ncontent (kit_box_data kit d) = d"
    and adapter: "\<And>f nb. poll (box_new (map_frame f nb)) =
      map_prod (map_outcome f (\<lambda>e. e)) (\<lambda>nb. box_new (map_frame f nb)) (poll_nb nb)"
  shows "poll_n poll k (box_new (map_frame (map_data (to_bytes NB)) (normalize_body kit (body, w)))) =
    map (\<lambda>p. map_outcome (\<lambda>fr. map_data (to_bytes NB) (map_data (kit_box_data kit) fr)) (kit_into kit) (present content p))
      (recv_n C k (h3b_stream body) w)"
proof -
  have "poll_n poll k (box_new (map_frame (map_data (to_bytes NB)) (normalize_body kit (body, w)))) =
      map (map_outcome (map_data (to_bytes NB)) (\<lambda>e. e)) (poll_n poll_nb k (normalize_body kit (body, w)))"
    by (rule poll_n_mapped [where mapped = "\<lambda>nb. box_new (map_frame (map_data (to_bytes NB)) nb)"]) (rule adapter)
  then show ?thesis
    by (simp add: body_kit_laws.poll_n_normalize [OF kit] h3_body_polls [OF bufs(1)] comp_def)
qed

lemma presented_bytes:
  assumes "buf_laws NB ncontent" and "\<And>d. ncontent (kit_box_data kit d) = d"
  shows "data_bytes (map (\<lambda>p. map_outcome (\<lambda>fr. map_data (to_bytes NB) (map_data (kit_box_data kit) fr)) into (present content p)) ps) =
    received_bytes content ps"
  by (subst data_bytes_unboxed) (simp_all add: buf_laws.to_bytes_content [OF assms(1)] assms(2) data_bytes_present)

lemma presented_end:
  "map_outcome f g (present content p) = Ready None \<longleftrightarrow> p = Ready (Inr None)"
  by (cases "(content, p)" rule: present.cases) simp_all

text \<open>
  Server-Sent Events over HTTP/3, from the QUIC stream to the caller: any number of polls of the stream
  that \<open>sse_stream\<close> makes of a normalized HTTP/3 response returns, and the events handed out, followed by those
  queued, are exactly the events in the bytes of the buffers that the h3 stream has handed out in the
  polls that were made of it, however these buffers are cut, chained or interleaved with pending answers.
\<close>

theorem sse_over_h3:
  assumes "body_kit_laws kit (h3_poll_frame C B) poll1 poll2 poll_nb"
    and "buf_laws B content" and "buf_laws NB ncontent" and "\<And>d. ncontent (kit_box_data kit d) = d"
    and "\<And>f nb. poll (box_new (map_frame f nb)) =
      map_prod (map_outcome f (\<lambda>e. e)) (\<lambda>nb. box_new (map_frame f nb)) (poll_nb nb)"
  shows "\<exists>log s' k. sse_polls poll lay n (response_sse_stream NB map_frame box_new
        (normalize_response kit \<lparr>rs_parts = parts, rs_body = (body, w)\<rparr>)) = Some (log, s') \<and>
      length log = n \<and> k \<le> n \<and> list_all log_fair log \<and>
      items log @ map Inr (sse_ready s') =
        map Inr (sse_reference (received_bytes content (recv_n C k (h3b_stream body) w)))"
proof -
  let ?s = "sse_new NB map_frame box_new (normalize_body kit (body, w))"
  obtain log s' where run: "sse_polls poll lay n ?s = Some (log, s')"
      and rest: "length log = n" "list_all log_fair log"
        "items log @ sse_queue s' = map Inr (sse_reference (delivered log))"
    using sse_polls_correct [of poll lay n NB map_frame box_new "normalize_body kit (body, w)"] by blast
  from sse_polls_body [OF run] obtain k where "k \<le> n"
      "delivered log = received_bytes content (recv_n C k (h3b_stream body) w)"
    unfolding h3_normalized_polls [where poll = poll and box_new = box_new and map_frame = map_frame and kit = kit
        and C = C and B = B and NB = NB, OF assms] presented_bytes [where kit = kit, OF assms(3,4)] by blast
  then show ?thesis
    using run rest by (auto simp: response_sse_stream_def normalize_response_def sse_queue_def)
qed

lemma sample_adapter: "poll_mapped poll (Pair f nb) = map_prod (map_outcome f (\<lambda>e. e)) (Pair f) (poll nb)"
  by (simp add: poll_mapped_def)

lemma sample_box: "concat (kit_box_data (closure_kit (\<lambda>d. [d]) into) d) = d"
  by (simp add: closure_kit_def)

text \<open>One buffer with an event, over adapters that keep their closures.\<close>

theorem sse_over_h3_witness:
  "\<exists>log s' k. sse_polls (poll_mapped (poll_mapped_err (poll_mapped (h3_poll_frame sample_client bytes_buf)))) (\<lambda>_. 1) 2
      (response_sse_stream rope_buf Pair (\<lambda>b. b) (normalize_response (closure_kit (\<lambda>d. [d]) (\<lambda>e. Msg ''body'' :: nat error))
        \<lparr>rs_parts = sample_parts, rs_body = (\<lparr>h3b_stream = [100, 97, 116, 97, 58, 120, 10, 10]\<rparr>, 0)\<rparr>)) =
      Some (log, s') \<and> length log = 2 \<and> k \<le> 2 \<and> list_all log_fair log \<and>
    items log @ map Inr (sse_ready s') = map Inr (sse_reference
      (received_bytes (\<lambda>b. b) (recv_n sample_client k [100, 97, 116, 97, 58, 120, 10, 10] 0)))"
proof -
  let ?nb = "poll_mapped_err (poll_mapped (h3_poll_frame sample_client bytes_buf))"
  show ?thesis
    using sse_over_h3 [where box_new = "\<lambda>b. b" and map_frame = Pair and lay = "\<lambda>_. 1" and n = 2 and C = sample_client
        and parts = sample_parts and body = "\<lparr>h3b_stream = [100, 97, 116, 97, 58, 120, 10, 10]\<rparr>" and w = 0
        and poll = "poll_mapped ?nb", OF closure.body_kit_laws_axioms [of "\<lambda>d. [d]" "\<lambda>e. Msg ''body'' :: nat error"]
        contiguous.buf_laws_axioms rope.buf_laws_axioms sample_box sample_adapter]
    by simp
qed


text \<open>When the h3 stream ends, so does the body that a parser reads, with the bytes received.\<close>

lemma h3_normalized_end:
  assumes "body_kit_laws kit (h3_poll_frame C B) poll1 poll2 poll_nb"
    and "buf_laws B content" and "buf_laws NB ncontent" and "\<And>d. ncontent (kit_box_data kit d) = d"
    and "\<And>f nb. poll (box_new (map_frame f nb)) =
      map_prod (map_outcome f (\<lambda>e. e)) (\<lambda>nb. box_new (map_frame f nb)) (poll_nb nb)"
    and "recv_n C (Suc (length ps)) (h3b_stream body) w = ps @ [Ready (Inr None)]" and "Ready (Inr None) \<notin> set ps"
  obtains os where
    "poll_n poll (Suc (length os)) (box_new (map_frame (map_data (to_bytes NB)) (normalize_body kit (body, w)))) =
      os @ [Ready None]"
    and "Ready None \<notin> set os" and "data_bytes os = received_bytes content ps"
proof -
  let ?F = "\<lambda>p. map_outcome (\<lambda>fr. map_data (to_bytes NB) (map_data (kit_box_data kit) fr)) (kit_into kit) (present content p)"
  have "poll_n poll (Suc (length (map ?F ps))) (box_new (map_frame (map_data (to_bytes NB)) (normalize_body kit (body, w)))) =
      map ?F ps @ [Ready None]"
    unfolding h3_normalized_polls [where poll = poll and box_new = box_new and map_frame = map_frame and kit = kit
        and C = C and B = B and NB = NB, OF assms(1-5)] length_map assms(6) by simp
  moreover have "Ready None \<notin> set (map ?F ps)" using assms(7) by (auto simp: presented_end eq_commute [of "Ready None"])
  ultimately show thesis
    by (rule that) (rule presented_bytes [where kit = kit, OF assms(3,4)])
qed

text \<open>
  C29: An event stream over HTTP/3 is read to its end: when the h3 stream answers \<open>ps\<close> and then the end of its data, a number
  of polls of the stream that \<open>sse_stream\<close> makes of the normalized response ends it, at the last poll and not
  before, and the events handed out are exactly those in the bytes of all the buffers received.
\<close>

theorem sse_over_h3_complete:
  assumes "body_kit_laws kit (h3_poll_frame C B) poll1 poll2 poll_nb"
    and "buf_laws B content" and "buf_laws NB ncontent" and "\<And>d. ncontent (kit_box_data kit d) = d"
    and "\<And>f nb. poll (box_new (map_frame f nb)) =
      map_prod (map_outcome f (\<lambda>e. e)) (\<lambda>nb. box_new (map_frame f nb)) (poll_nb nb)"
    and "recv_n C (Suc (length ps)) (h3b_stream body) w = ps @ [Ready (Inr None)]" and "Ready (Inr None) \<notin> set ps"
  shows "\<exists>n log l s'. sse_polls poll lay n (response_sse_stream NB map_frame box_new
        (normalize_response kit \<lparr>rs_parts = parts, rs_body = (body, w)\<rparr>)) = Some (log @ [l], s') \<and>
      log_result l = Ready None \<and> list_all (\<lambda>l. log_result l \<noteq> Ready None) log \<and> list_all log_fair (log @ [l]) \<and>
      items log = map Inr (sse_reference (received_bytes content ps))"
proof -
  obtain os where
    "poll_n poll (Suc (length os)) (box_new (map_frame (map_data (to_bytes NB)) (normalize_body kit (body, w)))) =
      os @ [Ready None]" "Ready None \<notin> set os" and bytes: "data_bytes os = received_bytes content ps"
    by (rule h3_normalized_end [where poll = poll and box_new = box_new and map_frame = map_frame and kit = kit
        and C = C and B = B and NB = NB, OF assms])
  then show ?thesis
    using sse_to_end [where poll_frame = poll and box_new = box_new and map_frame = map_frame and B = NB
        and body = "normalize_body kit (body, w)" and os = os and lay = lay]
    unfolding bytes response_sse_stream_def normalize_response_def response.simps by blast
qed

theorem sse_over_h3_complete_witness:
  "\<exists>n log l s'. sse_polls (poll_mapped (poll_mapped_err (poll_mapped (h3_poll_frame sample_client bytes_buf)))) (\<lambda>_. 1) n
      (response_sse_stream rope_buf Pair (\<lambda>b. b) (normalize_response (closure_kit (\<lambda>d. [d]) (\<lambda>e. Msg ''body'' :: nat error))
        \<lparr>rs_parts = sample_parts, rs_body = (\<lparr>h3b_stream = [100, 97, 116, 97, 58, 120, 10, 10]\<rparr>, 0)\<rparr>)) =
      Some (log @ [l], s') \<and> log_result l = Ready None \<and> list_all (\<lambda>l. log_result l \<noteq> Ready None) log \<and>
    list_all log_fair (log @ [l]) \<and> items log = map Inr (sse_reference [100, 97, 116, 97, 58, 120, 10, 10])"
proof -
  let ?nb = "poll_mapped_err (poll_mapped (h3_poll_frame sample_client bytes_buf))"
  let ?ps = "[Ready (Inr (Some [100, 97, 116, 97, 58, 120, 10, 10]))] :: (nat + byte list option) poll list"
  have recv: "recv_n sample_client (Suc (length ?ps)) (h3b_stream \<lparr>h3b_stream = [100, 97, 116, 97, 58, 120, 10, 10]\<rparr>) 0 =
      ?ps @ [Ready (Inr None)]"
    by (simp add: sample_client_def)
  show ?thesis
    using sse_over_h3_complete [where box_new = "\<lambda>b. b" and map_frame = Pair and lay = "\<lambda>_. 1" and C = sample_client
        and parts = sample_parts and body = "\<lparr>h3b_stream = [100, 97, 116, 97, 58, 120, 10, 10]\<rparr>" and w = 0 and ps = ?ps
        and poll = "poll_mapped ?nb", OF closure.body_kit_laws_axioms [of "\<lambda>d. [d]" "\<lambda>e. Msg ''body'' :: nat error"]
        contiguous.buf_laws_axioms rope.buf_laws_axioms sample_box sample_adapter recv]
    by simp
qed

text \<open>
  C30: NDJSON over HTTP/3 is read to its end: when the h3 stream answers \<open>ps\<close> and then the end of its data, a number of
  polls of the stream that \<open>ndjson_stream\<close> makes of the normalized response ends it, at the last poll and not
  before, and the items handed out are exactly what the lines in the bytes of all the buffers received
  deserialize to, in order, with an error in the place of each line that does not.
\<close>

theorem ndjson_over_h3_complete:
  fixes from_slice :: "byte list \<Rightarrow> 'x + 'item"
  assumes "body_kit_laws kit (h3_poll_frame C B) poll1 poll2 poll_nb"
    and "buf_laws B content" and "buf_laws NB ncontent" and "\<And>d. ncontent (kit_box_data kit d) = d"
    and "\<And>f nb. poll (box_new (map_frame f nb)) =
      map_prod (map_outcome f (\<lambda>e. e)) (\<lambda>nb. box_new (map_frame f nb)) (poll_nb nb)"
    and "recv_n C (Suc (length ps)) (h3b_stream body) w = ps @ [Ready (Inr None)]" and "Ready (Inr None) \<notin> set ps"
  shows "\<exists>n log l s'. ndjson_polls from_slice poll lay n (response_ndjson_stream NB map_frame box_new
        (normalize_response kit \<lparr>rs_parts = parts, rs_body = (body, w)\<rparr>)) = Some (log @ [l], s') \<and>
      log_result l = Ready None \<and> list_all (\<lambda>l. log_result l \<noteq> Ready None) log \<and> list_all log_fair (log @ [l]) \<and>
      items log = ndjson_reference from_slice (received_bytes content ps)"
proof -
  obtain os where
    "poll_n poll (Suc (length os)) (box_new (map_frame (map_data (to_bytes NB)) (normalize_body kit (body, w)))) =
      os @ [Ready None]" "Ready None \<notin> set os" and bytes: "data_bytes os = received_bytes content ps"
    by (rule h3_normalized_end [where poll = poll and box_new = box_new and map_frame = map_frame and kit = kit
        and C = C and B = B and NB = NB, OF assms])
  then show ?thesis
    using ndjson_to_end [where poll_frame = poll and box_new = box_new and map_frame = map_frame and B = NB
        and body = "normalize_body kit (body, w)" and os = os and lay = lay and from_slice = from_slice]
    unfolding bytes response_ndjson_stream_def normalize_response_def response.simps by blast
qed

text \<open>Two lines; the second one is refused.\<close>

theorem ndjson_over_h3_complete_witness:
  "\<exists>n log l s'. ndjson_polls (\<lambda>bs. if bs = [50] then Inl (9 :: nat) else Inr bs)
      (poll_mapped (poll_mapped_err (poll_mapped (h3_poll_frame sample_client bytes_buf)))) (\<lambda>_. 1) n
      (response_ndjson_stream rope_buf Pair (\<lambda>b. b) (normalize_response (closure_kit (\<lambda>d. [d]) (\<lambda>e. Msg ''body'' :: nat error))
        \<lparr>rs_parts = sample_parts, rs_body = (\<lparr>h3b_stream = [49, 49, 10, 50, 10]\<rparr>, 0)\<rparr>)) =
      Some (log @ [l], s') \<and> log_result l = Ready None \<and> list_all (\<lambda>l. log_result l \<noteq> Ready None) log \<and>
    list_all log_fair (log @ [l]) \<and> items log = [Inr [49, 49], Inl (Foreign 9)]"
proof -
  let ?nb = "poll_mapped_err (poll_mapped (h3_poll_frame sample_client bytes_buf))"
  let ?parse = "\<lambda>bs :: byte list. if bs = [50] then Inl (9 :: nat) else Inr bs"
  let ?ps = "[Ready (Inr (Some [49, 49, 10, 50, 10]))] :: (nat + byte list option) poll list"
  have recv: "recv_n sample_client (Suc (length ?ps)) (h3b_stream \<lparr>h3b_stream = [49, 49, 10, 50, 10]\<rparr>) 0 =
      ?ps @ [Ready (Inr None)]"
    by (simp add: sample_client_def)
  have "ndjson_reference ?parse [49, 49, 10, 50, 10] = [Inr [49, 49], Inl (Foreign 9)]"
    by (simp add: ndjson_reference_def complete_lines_def)
  then show ?thesis
    using ndjson_over_h3_complete [where box_new = "\<lambda>b. b" and map_frame = Pair and lay = "\<lambda>_. 1" and C = sample_client
        and parts = sample_parts and body = "\<lparr>h3b_stream = [49, 49, 10, 50, 10]\<rparr>" and w = 0 and ps = ?ps
        and poll = "poll_mapped ?nb" and from_slice = ?parse,
        OF closure.body_kit_laws_axioms [of "\<lambda>d. [d]" "\<lambda>e. Msg ''body'' :: nat error"]
        contiguous.buf_laws_axioms rope.buf_laws_axioms sample_box sample_adapter recv]
    by simp
qed

end
