(* ===== verification/Fetch.thy ===== *)
theory Fetch
  imports Responses
begin

text \<open>
  The command-line client of the repository (\<open>examples/navar_fetch.rs\<close>): its arguments, the parsing
  of the header arguments, and the execution of a request on any client.  \<open>FetchMain\<close> has \<open>main\<close>.

  The arguments are what \<open>clap\<close> has parsed.  Printing acts on the world through the parameter \<open>println\<close>.
\<close>

record config =
  cf_uri :: uri
  cf_method :: string
  cf_headers :: "uchar list list"

section \<open>The request\<close>

definition trim :: "uchar list \<Rightarrow> uchar list" where
  "trim s = trim_end (trim_start s)"

text \<open>\<open>header.split_once(':')\<close>: headers without a colon are skipped.\<close>

definition add_header ::
  "('hb, 'u, 'e1, 'ext, 'x) http_builder \<Rightarrow> ('hb, 'client) bound_request_builder \<Rightarrow> uchar list \<Rightarrow>
   ('hb, 'client) bound_request_builder" where
  "add_header H req_builder header =
     (case splitn2 (of_char CHR '':'') header of
        (k, Some v) \<Rightarrow> builder_header H (trim k) (str_bytes (trim v)) req_builder
      | (_, None) \<Rightarrow> req_builder)"

text \<open>\<open>as_uri\<close> is the conversion of a \<open>Uri\<close> into what the builder takes.\<close>

definition fetch_request ::
  "('hb, 'u, 'e1, 'ext, 'x) http_builder \<Rightarrow> (uri \<Rightarrow> 'u) \<Rightarrow> 'client \<Rightarrow> config \<Rightarrow> ('hb, 'client) bound_request_builder" where
  "fetch_request H as_uri client args =
     foldl (add_header H) (client_request H client (cf_method args) (as_uri (cf_uri args))) (cf_headers args)"

definition exec_request ::
  "('hb, 'u, 'e1, 'ext, 'x) http_builder \<Rightarrow> (uri \<Rightarrow> 'u) \<Rightarrow> ('be, 'b1, 'b2, 'nb, 'd, 'nd, 'e, 'x) body_kit \<Rightarrow> 'be \<Rightarrow>
   ('nb \<Rightarrow> ('w, 'x, 'coll) io) \<Rightarrow> ('coll \<Rightarrow> byte list) \<Rightarrow> ('ext res_parts \<Rightarrow> uchar list) \<Rightarrow>
   (uchar list \<Rightarrow> 'w \<Rightarrow> 'w) \<Rightarrow> (('ext, 'nb) request, ('ext, 'nb) response, 'w, 'x) client \<Rightarrow> config \<Rightarrow>
   ('w, 'x, unit) io" where
  "exec_request H as_uri kit empty_body collect to_contiguous show_parts println client args =
     io_bind (builder_send H kit empty_body (fetch_request H as_uri client args)) (\<lambda>response w.
       let w = println (show_parts (rs_parts response)) w in
       io_bind (collect (rs_body response)) (\<lambda>res_body w.
         (Inr (), println (from_utf8_lossy (to_contiguous res_body)) w)) w)"

section \<open>The header arguments\<close>

definition trimmed :: "uchar list \<Rightarrow> bool" where
  "trimmed s \<longleftrightarrow> trim s = s"

lemma trim_blank: "trim (32 # s) = trim s"
  by (simp add: trim_def trim_start_def is_whitespace_def)

text \<open>
  An argument of the form \<open>name: value\<close>, with a name that has no colon, adds just that header,
  even if the value has colons of its own; arguments are added in order, and one without a colon
  adds nothing.
\<close>

theorem fetch_headers_parsed:
  assumes "\<forall>(k, v) \<in> set hs. of_char CHR '':'' \<notin> set k \<and> trimmed k \<and> trimmed v"
    and "of_char CHR '':'' \<notin> set junk"
  shows "fetch_request H as_uri client \<lparr>cf_uri = u, cf_method = m,
      cf_headers = map (\<lambda>(k, v). k @ of_char CHR '':'' # 32 # v) hs @ [junk]\<rparr> =
    foldl (\<lambda>b (k, v). builder_header H k (str_bytes v) b) (client_request H client m (as_uri u)) hs"
proof -
  have "foldl (add_header H) b (map (\<lambda>(k, v). k @ of_char CHR '':'' # 32 # v) hs) =
      foldl (\<lambda>b (k, v). builder_header H k (str_bytes v) b) b hs" for b
    using assms(1)
  proof (induction hs arbitrary: b)
    case (Cons kv hs)
    obtain k v where kv: "kv = (k, v)" by fastforce
    then have "add_header H b (k @ of_char CHR '':'' # 32 # v) = builder_header H k (str_bytes v) b"
      using Cons.prems by (simp add: add_header_def splitn2_append trim_blank trimmed_def)
    then show ?case using Cons kv by simp
  qed simp
  then show ?thesis using splitn2_no_sep [OF assms(2)]
    by (simp add: fetch_request_def add_header_def)
qed

theorem fetch_headers_parsed_witness:
  "fetch_request (parts_builder () (1 :: nat) (sample_uri None)) Inr ()
     \<lparr>cf_uri = sample_uri None, cf_method = ''GET'', cf_headers = [str ''Referer: http://h'', str ''no colon'']\<rparr> =
   builder_header (parts_builder () 1 (sample_uri None)) (str ''Referer'') (str_bytes (str ''http://h''))
     (client_request (parts_builder () 1 (sample_uri None)) () ''GET'' (Inr (sample_uri None)))"
proof -
  have trimmed: "trimmed (str ''Referer'')" "trimmed (str ''http://h'')"
    by (simp_all add: trimmed_def trim_def trim_start_def trim_end_def is_whitespace_def str_def)
  show ?thesis
    using fetch_headers_parsed [of "[(str ''Referer'', str ''http://h'')]" "str ''no colon''"
        "parts_builder () (1 :: nat) (sample_uri None)" Inr "()" "sample_uri None" "''GET''"] trimmed
    by (simp add: str_def)
qed

end
