(* ===== verification/HyperRequests.thy ===== *)
theory HyperRequests
  imports Client Hyper
begin

text \<open>
  A request through the whole client over Hyper: the body is normalized by \<open>Client::send\<close>, converted once
  more by \<open>convert_body\<close> of \<open>navar-hyper/src/lib.rs\<close>, and handed to hyper with the parts of the request.
\<close>

text \<open>What a session does with the converted request.\<close>

definition hyper_exchange ::
  "('io, 's1, 'c1, 's2, 'c2, 'req, 'resp, 'w, 'x) hyper_lib \<Rightarrow> 'req \<Rightarrow> 's2 hyper_sender \<Rightarrow>
   (('s1, 'w) hyper_world, 'x, 'resp) io" where
  "hyper_exchange L req self hw =
     (case self of
        H1 a \<Rightarrow>
          (case hy_h1_ready L (hw_mutex hw a) (hw_world hw) of
             (Inl e, s, w) \<Rightarrow> (Inl (Foreign e), hw\<lparr>hw_mutex := (hw_mutex hw)(a := s), hw_world := w\<rparr>)
           | (Inr _, s, w) \<Rightarrow>
               (case hy_h1_send L req s w of
                  (r, s, w) \<Rightarrow> (map_sum Foreign id r, hw\<lparr>hw_mutex := (hw_mutex hw)(a := s), hw_world := w\<rparr>)))
      | H2 sender \<Rightarrow>
          (case hy_h2_ready L sender (hw_world hw) of
             (Inl e, s, w) \<Rightarrow> (Inl (Foreign e), hw\<lparr>hw_world := w\<rparr>)
           | (Inr _, s, w) \<Rightarrow>
               (case hy_h2_send L req s w of
                  (r, s, w) \<Rightarrow> (map_sum Foreign id r, hw\<lparr>hw_world := w\<rparr>))))"

lemma convert_body_normalizes: "convert_body kit = normalize_body kit"
  by (rule ext) (simp add: convert_body_def normalize_body_def)

text \<open>The session that comes back with the answer is dropped by \<open>handle\<close>.\<close>

lemma hyper_send_exchange:
  "hyper_exchange L \<lparr>rq_parts = rq_parts request, rq_body = normalize_body kit (rq_body request)\<rparr> self hw =
   (case hyper_send_request L kit request self hw of
      (Inl e, hw') \<Rightarrow> (Inl e, hw')
    | (Inr (resp, _), hw') \<Rightarrow> (Inr resp, hw'))"
  by (cases self) (auto simp: hyper_send_request_def hyper_exchange_def Let_def convert_body_normalizes
      map_sum_def split: prod.splits sum.splits)

lemma handle_exchange:
  "io_bind (on_world (send_request (hyper_session L kit) request self)) (\<lambda>(resp, _). io_return (norm resp)) =
   io_bind (on_world (hyper_exchange L \<lparr>rq_parts = rq_parts request, rq_body = normalize_body kit (rq_body request)\<rparr> self))
     (\<lambda>resp. io_return (norm resp))"
  by (rule ext) (auto simp: hyper_session_def io_run hyper_send_exchange split: prod.splits sum.splits)

lemma map_data_twice: "map_data f (map_data g fr) = map_data (\<lambda>d. f (g d)) fr"
  by (cases fr) simp_all

text \<open>
  C14: A request sent with the client over Hyper reaches hyper whole: on the pooled session of its authority, or on one
  just set up, the sender is awaited and then handed a request with the very parts of the caller's request
  and a body that answers every poll as the caller's body does, each frame of data boxed twice and nothing
  else changed: trailers, pending answers and the end of the body come through, and an error is converted
  twice.  What hyper answers comes back, a response normalized and an error as it is.
\<close>

theorem client_over_hyper:
  assumes "body_kit_laws kit1 poll p1 p2 poll_nb" and "body_kit_laws kit2 poll_nb q1 q2 poll_hb"
    and "uri_authority (request_uri req) = Some a"
  shows "\<exists>body. (\<forall>n. poll_n poll_hb n body =
        map (map_outcome (map_data (\<lambda>d. kit_box_data kit2 (kit_box_data kit1 d))) (\<lambda>e. kit_into kit2 (kit_into kit1 e)))
          (poll_n poll n (rq_body req))) \<and>
    client_send kit1 (fst (client_new T (hyper_application L prepare K S app) rt (hyper_session L kit2) norm w0)) req s =
      io_bind (get_session (fst (base_service_new T (hyper_application L prepare K S app) rt (hyper_session L kit2) norm w0))
          (request_uri req) a) (\<lambda>session.
        io_bind (on_world (hyper_exchange L \<lparr>rq_parts = rq_parts req, rq_body = body\<rparr> session)) (\<lambda>resp.
          io_return (norm resp))) s"
proof (intro exI conjI allI)
  let ?body = "normalize_body kit2 (normalize_body kit1 (rq_body req))"
  show "poll_n poll_hb n ?body =
      map (map_outcome (map_data (\<lambda>d. kit_box_data kit2 (kit_box_data kit1 d))) (\<lambda>e. kit_into kit2 (kit_into kit1 e)))
        (poll_n poll n (rq_body req))" for n
    by (simp add: body_kit_laws.poll_n_normalize [OF assms(1)] body_kit_laws.poll_n_normalize [OF assms(2)]
        comp_def map_data_twice)
  show "client_send kit1 (fst (client_new T (hyper_application L prepare K S app) rt (hyper_session L kit2) norm w0)) req s =
      io_bind (get_session (fst (base_service_new T (hyper_application L prepare K S app) rt (hyper_session L kit2) norm w0))
          (request_uri req) a) (\<lambda>session.
        io_bind (on_world (hyper_exchange L \<lparr>rq_parts = rq_parts req, rq_body = ?body\<rparr> session)) (\<lambda>resp.
          io_return (norm resp))) s"
    using assms(3) by (simp add: client_send_base base_handle_def base_service_new_def handle_exchange)
qed

text \<open>Over the adapters of scripts, a body with data and trailers.\<close>

definition sample_trailing :: "(byte list, nat) outcome list" where
  "sample_trailing = [Ready (Some (Inr (DataFrame [1, 2]))), Pending, Ready (Some (Inr (TrailersFrame [])))]"

definition answering_hyper ::
  "(nat, nat, nat, nat, nat, (unit, (byte list list, nat error) outcome list) request, (unit, unit) response, nat, nat) hyper_lib" where
  "answering_hyper =
     \<lparr>hy_h1_handshake = (\<lambda>io w. (Inr (io, io), w)), hy_h2_handshake = (\<lambda>io w. (Inr (io, io), w)),
      hy_h1_ready = (\<lambda>s w. (Inr (), s, w)),
      hy_h1_send = (\<lambda>r s w. (Inr \<lparr>rs_parts = \<lparr>sp_status = 200, sp_headers = [], sp_extensions = ()\<rparr>, rs_body = ()\<rparr>, s, w)),
      hy_h2_ready = (\<lambda>s w. (Inr (), s, w)),
      hy_h2_send = (\<lambda>r s w. (Inr \<lparr>rs_parts = \<lparr>sp_status = 200, sp_headers = [], sp_extensions = ()\<rparr>, rs_body = ()\<rparr>, s,
        w + 1)),
      hy_h1_run = (\<lambda>c w. (Inr (), w)), hy_h2_run = (\<lambda>c w. (Inr (), w)), hy_debug = (\<lambda>e. [])\<rparr>"

definition sample_put :: "(unit, (byte list, nat) outcome list) request" where
  "sample_put = \<lparr>rq_parts = \<lparr>rp_method = ''PUT'', rp_uri = sample_uri None, rp_version = 11, rp_headers = [], rp_extensions = ()\<rparr>,
     rq_body = sample_trailing\<rparr>"

definition answering_client where
  "answering_client = fst (client_new \<lparr>connect = (\<lambda>u. io_return ())\<rparr>
     (hyper_application answering_hyper (\<lambda>_. 7) (sample_conn (Some h2_name)) sample_stream hyper_app_new)
     \<lparr>spawn = (\<lambda>d w. w)\<rparr> (hyper_session answering_hyper (script_kit (\<lambda>d. [d]) (\<lambda>e. e)))
     (\<lambda>r. \<lparr>rs_parts = rs_parts r, rs_body = []\<rparr>) \<lparr>hw_mutex = (\<lambda>_. 0), hw_next = 0, hw_world = 0\<rparr>)"

definition sample_pooled :: "(nat hyper_sender, (nat, nat) hyper_world) base_state" where
  "sample_pooled = \<lparr>pool = [''h'' \<mapsto> H2 5], world = \<lparr>hw_mutex = (\<lambda>_. 0), hw_next = 0, hw_world = 0\<rparr>\<rparr>"

theorem client_over_hyper_witness:
  "\<exists>body. (\<forall>n. poll_n poll_script n body =
        map (map_outcome (map_data (\<lambda>d. [d])) (\<lambda>e. Foreign e)) (poll_n poll_script n (rq_body sample_put))) \<and>
    client_send (script_kit (\<lambda>d. d) Foreign) answering_client sample_put sample_pooled =
      io_bind (on_world (hyper_exchange answering_hyper \<lparr>rq_parts = rq_parts sample_put, rq_body = body\<rparr> (H2 5)))
        (\<lambda>resp. io_return \<lparr>rs_parts = rs_parts resp, rs_body = []\<rparr>) sample_pooled"
proof -
  have "uri_authority (request_uri sample_put) = Some ''h''" by (simp add: sample_put_def sample_uri_def)
  from client_over_hyper [OF script.body_kit_laws_axioms [of "\<lambda>d. d" Foreign] script.body_kit_laws_axioms
      [of "\<lambda>d. [d]" "\<lambda>e. e"] this, of "\<lparr>connect = (\<lambda>u. io_return ())\<rparr>" answering_hyper "\<lambda>_. 7" "sample_conn (Some h2_name)"
      sample_stream hyper_app_new "\<lparr>spawn = (\<lambda>d w. w)\<rparr>" "\<lambda>r. \<lparr>rs_parts = rs_parts r, rs_body = []\<rparr>"
      "\<lparr>hw_mutex = (\<lambda>_. 0), hw_next = 0, hw_world = 0\<rparr>"
      "sample_pooled", folded answering_client_def]
  show ?thesis by (rule ex_forward) (simp add: io_bind_def get_session_def script_kit_def sample_pooled_def)
qed

end
