(* ===== verification/H3Client.thy ===== *)
theory H3Client
  imports Responses H3Session
begin

text \<open>
  A request through the whole client over HTTP/3: the builders of \<open>src/bound_request.rs\<close>, the
  normalization of \<open>Client::send\<close>, the pool of \<open>BaseService::handle\<close> and the session of
  \<open>navar-h3/src/lib.rs\<close>, which sends the body on the QUIC stream and waits for the response.

  The session is put behind the \<open>Session\<close> trait.  A call that does not return has no value:
  \<open>never\<close> stands for it, and the theorems hold for every \<open>never\<close>, because the calls they speak of return.
\<close>

definition h3_session_trait ::
  "(('ext, 'b) request \<Rightarrow> 'sender h3_session \<Rightarrow>
      ('w, 'x, ('ext, 'stream h3_response_body) response \<times> 'sender h3_session) io) \<Rightarrow>
   ('ext, 'c, 'driver, 'sender, 'stream, 'rb, 'w, 'x) h3_client \<Rightarrow> 'd buf \<Rightarrow> ('e \<Rightarrow> 'x error) \<Rightarrow>
   ('b \<Rightarrow> ('e + 'd frame) option \<times> 'b) \<Rightarrow>
   ('sender h3_session, ('ext, 'b) request, ('ext, 'stream h3_response_body) response, 'w, 'x) session" where
  "h3_session_trait never C B into next_frame = \<lparr>send_request = (\<lambda>request self w.
     case h3_session_send_request C B into next_frame request self w of
       None \<Rightarrow> never request self w
     | Some (Inl e, self', w') \<Rightarrow> (Inl e, w')
     | Some (Inr response, self', w') \<Rightarrow> (Inr (response, self'), w'))\<rparr>"

section \<open>Awaiting the next frame\<close>

text \<open>
  \<open>BodyExt::frame\<close> polls the body until it is ready.  A run of polls that goes on until the body ends
  or fails gives the run of awaited frames.
\<close>

locale frame_future =
  fixes poll :: "'b \<Rightarrow> ('d, 'e) outcome \<times> 'b"
    and next_frame :: "'b \<Rightarrow> ('e + 'd frame) option \<times> 'b"
  assumes frame_ready: "poll b = (Ready r, b') \<Longrightarrow> next_frame b = (r, b')"
    and frame_pending: "poll b = (Pending, b') \<Longrightarrow> next_frame b = next_frame b'"

fun going_on :: "('d, 'e) outcome \<Rightarrow> bool" where
  "going_on Pending = True"
| "going_on (Ready (Some (Inr fr))) = True"
| "going_on _ = False"

fun body_frames :: "('d, 'e) outcome list \<Rightarrow> 'd frame list" where
  "body_frames [] = []"
| "body_frames (Ready (Some (Inr fr)) # os) = fr # body_frames os"
| "body_frames (_ # os) = body_frames os"

definition ended :: "'e option \<Rightarrow> ('d, 'e) outcome" where
  "ended fin = Ready (map_option Inl fin)"

lemma body_run_moved: "body_run next_frame b' fs fin \<Longrightarrow> next_frame b = next_frame b' \<Longrightarrow> body_run next_frame b fs fin"
  by (erule body_run.cases) (auto intro: body_run.intros)

lemma map_ended: "map_outcome f g (ended fin) = ended (map_option g fin)"
  by (cases fin) (simp_all add: ended_def)

lemma body_frames_mapped: "body_frames (map (map_outcome f g) os) = map f (body_frames os)"
  by (induction os rule: body_frames.induct) auto

lemma going_on_mapped [simp]: "going_on (map_outcome f g out) = going_on out"
  by (cases out rule: going_on.cases) simp_all

lemma frame_datas_mapped: "frame_datas (map (map_data f) fs) = map f (frame_datas fs)"
  by (induction fs rule: frame_datas.induct) auto

context frame_future
begin

lemma awaited:
  "poll_n poll (Suc (length os)) b = os @ [ended fin] \<Longrightarrow> list_all going_on os \<Longrightarrow>
   body_run next_frame b (body_frames os) fin"
proof (induction os arbitrary: b)
  case Nil
  obtain out b' where "poll b = (out, b')" by (rule prod.exhaust)
  with Nil have "next_frame b = (map_option Inl fin, b')" by (auto simp: ended_def intro: frame_ready)
  then show ?case by (cases fin) (auto intro: run_end run_error)
next
  case (Cons out os)
  obtain b' where b': "poll b = (out, b')" using Cons.prems(1) by (cases "poll b") simp
  with Cons.prems have rest: "poll_n poll (Suc (length os)) b' = os @ [ended fin]" "list_all going_on os" by simp_all
  show ?case
  proof (cases out rule: going_on.cases)
    case 1
    then show ?thesis using Cons.IH [OF rest] frame_pending [of b b'] b' by (auto intro: body_run_moved)
  next
    case (2 fr)
    then show ?thesis using Cons.IH [OF rest] frame_ready [of b _ b'] b' by (auto intro: run_frame)
  qed (use Cons.prems(2) in simp_all)
qed

end

fun script_next :: "('d, 'e) outcome list \<Rightarrow> ('e + 'd frame) option \<times> ('d, 'e) outcome list" where
  "script_next [] = (None, [])"
| "script_next (Pending # os) = script_next os"
| "script_next (Ready r # os) = (r, os)"

interpretation script_frames: frame_future poll_script script_next
proof
  show "poll_script b = (Ready r, b') \<Longrightarrow> script_next b = (r, b')" for b b' :: "('d, 'e) outcome list" and r
    by (cases b rule: script_next.cases) auto
  show "poll_script b = (Pending, b') \<Longrightarrow> script_next b = script_next b'" for b b' :: "('d, 'e) outcome list"
    by (cases b rule: script_next.cases) auto
qed

section \<open>The exchange on the stream\<close>

text \<open>
  What a request does with the client of the \<open>h3\<close> crate, its body given as the pieces to send and the
  error it ends with, if any: open the stream, send the pieces one after the other, finish, wait for the response.
\<close>

definition h3_exchange ::
  "('ext, 'c, 'driver, 'sender, 'stream, 'rb, 'w, 'x) h3_client \<Rightarrow> 'ext req_parts \<Rightarrow> byte list list \<Rightarrow>
   'x error option \<Rightarrow> 'sender h3_session \<Rightarrow>
   ('w, 'x, ('ext, 'stream h3_response_body) response \<times> 'sender h3_session) io" where
  "h3_exchange C parts pieces fin session w =
     (case h3c_send_request C \<lparr>rq_parts = parts, rq_body = ()\<rparr> (h3s_sender session) w of
        (Inl e, _, w1) \<Rightarrow> (Inl (Foreign e), w1)
      | (Inr stream, sender, w1) \<Rightarrow>
          io_bind (io_bind (send_all C pieces stream) (body_end (\<lambda>e. e) fin)) (\<lambda>stream w2.
            case h3c_finish C stream w2 of
              (Inl e, _, w3) \<Rightarrow> (Inl (Foreign e), w3)
            | (Inr _, stream, w3) \<Rightarrow>
                (case h3c_recv_response C stream w3 of
                   (Inl e, _, w4) \<Rightarrow> (Inl (Foreign e), w4)
                 | (Inr response, stream, w4) \<Rightarrow>
                     (Inr (\<lparr>rs_parts = rs_parts response, rs_body = \<lparr>h3b_stream = stream\<rparr>\<rparr>,
                        session\<lparr>h3s_sender := sender\<rparr>), w4))) w1)"

lemma body_end_into: "body_end into fin a = body_end (\<lambda>e. e) (map_option into fin) a"
  by (cases fin) (simp_all add: body_end_def)

lemma h3_send_exchange:
  assumes "body_run next_frame (rq_body request) fs fin"
  shows "send_request (h3_session_trait never C B into next_frame) request session w =
    h3_exchange C (rq_parts request) (map (buf_chunk B) (frame_datas fs)) (map_option into fin) session w"
  by (simp add: h3_session_trait_def h3_session_send_request_def h3_send_body_run [OF assms] h3_exchange_def
      Let_def io_bind_def body_end_into [of into fin] split: prod.split sum.split option.split)

lemma on_world_Inr_iff:
  "on_world m s = (Inr a, s') \<longleftrightarrow> (\<exists>w'. m (world s) = (Inr a, w') \<and> s' = s\<lparr>world := w'\<rparr>)"
  by (auto simp: on_world_def split: prod.splits)

lemma case_stream_Inr_iff:
  "(case m of (Inl e, _, w) \<Rightarrow> (Inl (f e), w) | (Inr x, st, w) \<Rightarrow> g x st w) = (Inr b, w') \<longleftrightarrow>
   (\<exists>x st w. m = (Inr x, st, w) \<and> g x st w = (Inr b, w'))"
  by (auto split: prod.splits sum.splits)

text \<open>When an exchange succeeds: all its calls have succeeded, one after the other, on the same stream.\<close>

lemma h3_exchange_Inr_iff:
  "h3_exchange C parts pieces None session w = (Inr (resp, session'), w') \<longleftrightarrow>
    (\<exists>stream0 sender w1 stream w2 stream' w3 response stream''.
       h3c_send_request C \<lparr>rq_parts = parts, rq_body = ()\<rparr> (h3s_sender session) w = (Inr stream0, sender, w1) \<and>
       send_all C pieces stream0 w1 = (Inr stream, w2) \<and>
       h3c_finish C stream w2 = (Inr (), stream', w3) \<and>
       h3c_recv_response C stream' w3 = (Inr response, stream'', w') \<and>
       resp = \<lparr>rs_parts = rs_parts response, rs_body = \<lparr>h3b_stream = stream''\<rparr>\<rparr> \<and>
       session' = session\<lparr>h3s_sender := sender\<rparr>)"
  unfolding h3_exchange_def case_stream_Inr_iff by (simp add: io_ok body_end_def case_stream_Inr_iff) blast

section \<open>Through the whole client\<close>

text \<open>The base service and the client over a transport and the HTTP/3 plugin.\<close>

abbreviation h3_base ::
  "('conn, 'w, 'x) transport_plugin \<Rightarrow>
   ('ext, ('conn, 'fb, 'fs, 'fr) h3_connection, 'driver, 'sender, 'stream, 'rb, 'w, 'x) h3_client \<Rightarrow>
   ('driver, 'w) async_runtime \<Rightarrow> (('ext, 'b) request \<Rightarrow> 'sender h3_session \<Rightarrow>
      ('w, 'x, ('ext, 'stream h3_response_body) response \<times> 'sender h3_session) io) \<Rightarrow> 'd buf \<Rightarrow>
   ('e \<Rightarrow> 'x error) \<Rightarrow> ('b \<Rightarrow> ('e + 'd frame) option \<times> 'b) \<Rightarrow>
   (('ext, 'stream h3_response_body) response \<Rightarrow> ('ext, 'b) response) \<Rightarrow> 'w \<Rightarrow> _" where
  "h3_base T C rt never B into next_frame norm w0 \<equiv>
     fst (base_service_new T (h3_app C) rt (h3_session_trait never C B into next_frame) norm w0)"

abbreviation h3_client_new ::
  "('conn, 'w, 'x) transport_plugin \<Rightarrow>
   ('ext, ('conn, 'fb, 'fs, 'fr) h3_connection, 'driver, 'sender, 'stream, 'rb, 'w, 'x) h3_client \<Rightarrow>
   ('driver, 'w) async_runtime \<Rightarrow> (('ext, 'b) request \<Rightarrow> 'sender h3_session \<Rightarrow>
      ('w, 'x, ('ext, 'stream h3_response_body) response \<times> 'sender h3_session) io) \<Rightarrow> 'd buf \<Rightarrow>
   ('e \<Rightarrow> 'x error) \<Rightarrow> ('b \<Rightarrow> ('e + 'd frame) option \<times> 'b) \<Rightarrow>
   (('ext, 'stream h3_response_body) response \<Rightarrow> ('ext, 'b) response) \<Rightarrow> 'w \<Rightarrow> _" where
  "h3_client_new T C rt never B into next_frame norm w0 \<equiv>
     fst (client_new T (h3_app C) rt (h3_session_trait never C B into next_frame) norm w0)"

lemma client_send_h3:
  assumes "body_kit_laws kit poll poll1 poll2 poll_nb" and "frame_future poll_nb next_frame"
    and "poll_n poll (Suc (length os)) (rq_body req) = os @ [ended fin]" and "list_all going_on os"
    and "uri_authority (request_uri req) = Some a"
  shows "client_send kit (h3_client_new T C rt never NB into next_frame norm w0) req s =
    io_bind (get_session (h3_base T C rt never NB into next_frame norm w0) (request_uri req) a) (\<lambda>session.
      io_bind (on_world (h3_exchange C (rq_parts req)
        (map (\<lambda>d. buf_chunk NB (kit_box_data kit d)) (frame_datas (body_frames os)))
        (map_option (\<lambda>e. into (kit_into kit e)) fin) session)) (\<lambda>(resp, _).
      io_return (norm resp))) s"
proof -
  have "poll_n poll_nb (Suc (length (map (map_outcome (map_data (kit_box_data kit)) (kit_into kit)) os)))
      (normalize_body kit (rq_body req)) =
    map (map_outcome (map_data (kit_box_data kit)) (kit_into kit)) os @ [ended (map_option (kit_into kit) fin)]"
    by (simp only: body_kit_laws.poll_n_normalize [OF assms(1)] length_map assms(3) map_append list.map map_ended)
  from frame_future.awaited [OF assms(2) this]
  have "body_run next_frame (rq_body \<lparr>rq_parts = rq_parts req, rq_body = normalize_body kit (rq_body req)\<rparr>)
      (map (map_data (kit_box_data kit)) (body_frames os)) (map_option (kit_into kit) fin)"
    using assms(4) by (simp add: body_frames_mapped list_all_iff)
  note exchange = h3_send_exchange [OF this]
  have "send_request (h3_session_trait never C NB into next_frame)
      \<lparr>rq_parts = rq_parts req, rq_body = normalize_body kit (rq_body req)\<rparr> session =
    h3_exchange C (rq_parts req) (map (\<lambda>d. buf_chunk NB (kit_box_data kit d)) (frame_datas (body_frames os)))
      (map_option (\<lambda>e. into (kit_into kit e)) fin) session" for session
    by (rule ext) (simp add: exchange frame_datas_mapped comp_def option.map_comp)
  then show ?thesis
    using assms(5) by (simp add: client_send_base base_handle_def base_service_new_def)
qed

text \<open>
  C13: A request sent with the client goes over HTTP/3 as one exchange on the session of its authority.  Whatever
  the polls of its body answer until the body ends or fails, the call returns; it takes the pooled session or sets
  one up, opens a stream with the parts of the request, sends the first chunk of each boxed data frame, once and in order,
  and then finishes the stream and waits for the response, which comes back normalized.  Every error (of the
  set-up, of the stream, or of the body, converted twice) ends the call at once and is the caller's error.
\<close>

theorem client_over_h3:
  assumes "body_kit_laws kit poll poll1 poll2 poll_nb" and "frame_future poll_nb next_frame"
    and "poll_n poll (Suc (length os)) (rq_body req) = os @ [ended fin]" and "list_all going_on os"
    and "uri_authority (request_uri req) = Some a"
  shows "client_send kit (h3_client_new T C rt never NB into next_frame norm w0) req s =
    io_bind (get_session (h3_base T C rt never NB into next_frame norm w0) (request_uri req) a) (\<lambda>session.
      io_bind (on_world (h3_exchange C (rq_parts req)
        (map (\<lambda>d. buf_chunk NB (kit_box_data kit d)) (frame_datas (body_frames os)))
        (map_option (\<lambda>e. into (kit_into kit e)) fin) session)) (\<lambda>(resp, _).
      io_return (norm resp))) s"
  using assms by (rule client_send_h3)

text \<open>A transport, a runtime and an HTTP/3 client for the examples.\<close>

definition sample_stack ::
  "(unit, (unit, unit, unit, unit) h3_connection, unit, nat, byte list, byte list, nat, nat) h3_client" where
  "sample_stack =
     \<lparr>h3c_new = (\<lambda>c w. (Inr ((), 0), w)), h3c_send_request = h3c_send_request sample_client,
      h3c_send_data = h3c_send_data sample_client, h3c_finish = h3c_finish sample_client,
      h3c_recv_response = h3c_recv_response sample_client, h3c_poll_recv_data = h3c_poll_recv_data sample_client,
      h3c_wait_idle = h3c_wait_idle sample_client, h3c_is_no_error = (\<lambda>e. e = 0), h3c_display = (\<lambda>e. [])\<rparr>"

definition sample_transport :: "(unit, nat, nat) transport_plugin" where
  "sample_transport = \<lparr>connect = (\<lambda>u. io_return ())\<rparr>"

definition sample_runtime :: "(unit, nat) async_runtime" where
  "sample_runtime = \<lparr>spawn = (\<lambda>d w. w + 10)\<rparr>"

lemmas sample_h3_defs = sample_stack_def sample_client_def sample_transport_def sample_runtime_def
  base_service_new_def get_session_def h3_app_def h3_handshake_def

theorem client_over_h3_witness:
  "client_send (script_kit (\<lambda>d. d) Foreign)
      (h3_client_new sample_transport sample_stack sample_runtime (\<lambda>req self. io_error (Msg [])) bytes_buf (\<lambda>e. e)
         script_next (\<lambda>r. \<lparr>rs_parts = rs_parts r, rs_body = []\<rparr>) 0)
      \<lparr>rq_parts = \<lparr>rp_method = ''POST'', rp_uri = sample_uri (Some ''https''), rp_version = 11, rp_headers = [], rp_extensions = ()\<rparr>,
       rq_body = [Ready (Some (Inr (DataFrame [1, 2]))), Pending, Ready (Some (Inl (7 :: nat)))]\<rparr>
      \<lparr>pool = Map.empty, world = 0\<rparr> =
    (Inl (Foreign 7), \<lparr>pool = [''h'' \<mapsto> \<lparr>h3s_sender = 0\<rparr>], world = 11\<rparr>)"
proof -
  let ?os = "[Ready (Some (Inr (DataFrame [1, 2]))), Pending] :: (byte list, nat) outcome list"
  show ?thesis
    by (subst client_over_h3 [OF script.body_kit_laws_axioms script_frames.frame_future_axioms, where os = ?os
          and fin = "Some 7" and a = "''h''"])
      (simp_all add: sample_h3_defs sample_uri_def io_run h3_exchange_def body_end_def script_kit_def ended_def)
qed

text \<open>
  C15: Text over HTTP/3: a request that \<open>text\<close> has built is answered exactly when, on the session that is pooled
  or set up for its authority, a stream was opened with the parts of the request, took the UTF-8 form of the text in
  one piece (an empty text sends nothing), was finished, and then gave a response.  Each call is made on the stream and in
  the world that the one before left; the answer is the normalized response, its body is read from that stream,
  the final world is the one in which the response came, and the session is in the pool.
\<close>

theorem text_over_h3:
  fixes poll :: "'b \<Rightarrow> (byte list, 'k) outcome \<times> 'b"
  assumes "body_kit_laws kit poll poll1 poll2 poll_nb" and "frame_future poll_nb next_frame"
    and "\<And>d. buf_chunk NB (kit_box_data kit d) = d"
    and "\<And>bs. bs \<noteq> [] \<Longrightarrow> poll_n poll 2 (full bs) = [Ready (Some (Inr (DataFrame bs))), Ready None]"
    and "poll_n poll 1 (full []) = [Ready None]"
    and "builder_text H full text self = Inr br"
    and "brb_client self = h3_client_new T C rt never NB into next_frame norm w0"
    and "uri_authority (br_uri br) = Some a"
  shows "bound_request_send kit br s = (Inr resp, s') \<longleftrightarrow>
    (\<exists>session s1 stream0 sender w1 stream w2 stream' w3 response stream'' w4.
       get_session (h3_base T C rt never NB into next_frame norm w0) (br_uri br) a s = (Inr session, s1) \<and>
       h3c_send_request C \<lparr>rq_parts = rq_parts (br_request br), rq_body = ()\<rparr> (h3s_sender session) (world s1) =
         (Inr stream0, sender, w1) \<and>
       (if str_bytes text = [] then stream = stream0 \<and> w2 = w1
        else h3c_send_data C (str_bytes text) stream0 w1 = (Inr (), stream, w2)) \<and>
       h3c_finish C stream w2 = (Inr (), stream', w3) \<and>
       h3c_recv_response C stream' w3 = (Inr response, stream'', w4) \<and>
       resp = norm \<lparr>rs_parts = rs_parts response, rs_body = \<lparr>h3b_stream = stream''\<rparr>\<rparr> \<and>
       s' = s1\<lparr>world := w4\<rparr> \<and> pool s' a = Some session)"
proof -
  define os :: "(byte list, 'k) outcome list"
    where "os = (if str_bytes text = [] then [] else [Ready (Some (Inr (DataFrame (str_bytes text))))])"
  have br: "rq_body (br_request br) = full (str_bytes text)" "br_client br = brb_client self"
    using assms(6) by (auto simp: builder_text_def builder_body_def Let_def ensure_content_type_def split: sum.splits if_splits)
  have polls: "poll_n poll (Suc (length os)) (rq_body (br_request br)) = os @ [ended None]"
    using assms(4) [of "str_bytes text"] assms(5) by (simp add: br os_def ended_def numeral_2_eq_2)
  have going: "list_all going_on os" by (simp add: os_def)
  have auth: "uri_authority (request_uri (br_request br)) = Some a" using assms(8) by (simp add: br_uri_def)
  have pieces: "map (\<lambda>d. buf_chunk NB (kit_box_data kit d)) (frame_datas (body_frames os)) =
      (if str_bytes text = [] then [] else [str_bytes text])"
    by (simp add: assms(3) os_def)
  have sent: "bound_request_send kit br s =
    io_bind (get_session (h3_base T C rt never NB into next_frame norm w0) (br_uri br) a) (\<lambda>session.
      io_bind (on_world (h3_exchange C (rq_parts (br_request br))
        (if str_bytes text = [] then [] else [str_bytes text]) None session)) (\<lambda>(resp, _). io_return (norm resp))) s"
    using client_send_h3 [OF assms(1,2) polls going auth, where T = T and C = C and rt = rt and never = never
        and NB = NB and into = into and norm = norm and ?w0.0 = w0 and s = s]
    by (simp add: bound_request_send_def br(2) assms(7) pieces br_uri_def)
  have one: "send_all C (if str_bytes text = [] then [] else [str_bytes text]) stream0 w1 = (Inr stream, w2) \<longleftrightarrow>
      (if str_bytes text = [] then stream = stream0 \<and> w2 = w1
       else h3c_send_data C (str_bytes text) stream0 w1 = (Inr (), stream, w2))" for stream0 w1 stream w2
    by (auto split: prod.splits sum.splits)
  have answered: "bound_request_send kit br s = (Inr resp, s') \<longleftrightarrow> (\<exists>session s1 r session' w4.
      get_session (h3_base T C rt never NB into next_frame norm w0) (br_uri br) a s = (Inr session, s1) \<and>
      h3_exchange C (rq_parts (br_request br)) (if str_bytes text = [] then [] else [str_bytes text]) None session
        (world s1) = (Inr (r, session'), w4) \<and>
      resp = norm r \<and> s' = s1\<lparr>world := w4\<rparr> \<and> pool s' a = Some session)"
    unfolding sent by (auto simp: io_ok on_world_Inr_iff intro: get_session_stores)
  show ?thesis
    unfolding answered h3_exchange_Inr_iff one by (rule iffI; elim exE conjE; hypsubst; intro exI conjI; (assumption | rule refl))
qed


text \<open>A text of two characters, posted; \<open>Full::new\<close> has no frame for an empty text.\<close>

definition sample_full :: "byte list \<Rightarrow> (byte list, nat) outcome list" where
  "sample_full bs = (if bs = [] then [] else [Ready (Some (Inr (DataFrame bs)))])"

definition sample_post_parts :: "unit req_parts" where
  "sample_post_parts = with_content_type (ascii ''text/plain; charset=utf-8'')
     \<lparr>rp_method = ''POST'', rp_uri = sample_uri None, rp_version = 11, rp_headers = [], rp_extensions = ()\<rparr>"

definition sample_h3_client where
  "sample_h3_client = h3_client_new sample_transport sample_stack sample_runtime (\<lambda>req self. io_error (Msg [])) bytes_buf
     (\<lambda>e. e) script_next (\<lambda>r. \<lparr>rs_parts = rs_parts r, rs_body = [Ready (Some (Inr (DataFrame (h3b_stream (rs_body r)))))]\<rparr>) 0"

text \<open>The server of the example answers with what it has received on the stream: the UTF-8 form of the text.\<close>

theorem text_over_h3_witness:
  "\<exists>br. builder_text (parts_builder () (1 :: nat) (sample_uri None)) sample_full [104, 8364]
      (client_request (parts_builder () 1 (sample_uri None)) sample_h3_client ''POST'' (Inr (sample_uri None))) = Inr br \<and>
    bound_request_send (script_kit (\<lambda>d. d) Foreign) br \<lparr>pool = Map.empty, world = 0\<rparr> =
      (Inr \<lparr>rs_parts = \<lparr>sp_status = 200, sp_headers = [], sp_extensions = ()\<rparr>,
            rs_body = [Ready (Some (Inr (DataFrame [104, 226, 130, 172])))]\<rparr>,
       \<lparr>pool = [''h'' \<mapsto> \<lparr>h3s_sender = 0\<rparr>], world = 11\<rparr>)"
proof -
  let ?H = "parts_builder () (1 :: nat) (sample_uri None)"
  let ?self = "client_request ?H sample_h3_client ''POST'' (Inr (sample_uri None))"
  let ?br = "\<lparr>br_request = \<lparr>rq_parts = sample_post_parts, rq_body = sample_full (str_bytes [104, 8364])\<rparr>,
    br_client = sample_h3_client\<rparr>"
  have "hb_parts ?H (brb_inner ?self) = Inr \<lparr>rp_method = ''POST'', rp_uri = sample_uri None, rp_version = 11,
      rp_headers = [], rp_extensions = ()\<rparr>"
    by (simp add: parts_builder_def client_request_def builder_new_def)
  then have built: "builder_text ?H sample_full [104, 8364] ?self = Inr ?br"
    by (simp add: builder_text_def Let_def sample_post_parts_def client_request_def builder_new_def
        builder_laws.body_with_content_type [OF parts_builder.builder_laws_axioms] content_types_valid)
  have auth: "uri_authority (br_uri ?br) = Some ''h''"
    by (simp add: br_uri_def sample_post_parts_def with_content_type_def sample_uri_def)
  have "brb_client ?self = h3_client_new sample_transport sample_stack sample_runtime (\<lambda>req self. io_error (Msg [])) bytes_buf
     (\<lambda>e. e) script_next (\<lambda>r. \<lparr>rs_parts = rs_parts r, rs_body = [Ready (Some (Inr (DataFrame (h3b_stream (rs_body r)))))]\<rparr>) 0"
    by (simp add: client_request_def builder_new_def sample_h3_client_def)
  note answered = text_over_h3 [OF script.body_kit_laws_axioms script_frames.frame_future_axioms _ _ _ built
      this auth]
  show ?thesis
    by (intro exI conjI, rule built, subst answered)
      (simp_all add: sample_full_def script_kit_def bytes_buf_def numeral_2_eq_2 encode_char_def byte_of_def sample_h3_defs io_run Let_def)
qed


section \<open>Requests without a body\<close>

text \<open>
  \<open>build\<close> attaches \<open>Empty<NeverBuf>\<close>, whose buffer type has no values and whose methods are \<open>unreachable!()\<close>.  They
  are never reached: the outcome of such a request is the same whatever the buffer operations do.
\<close>

theorem never_buf_unreached:
  assumes "body_kit_laws kit poll poll1 poll2 poll_nb" and "frame_future poll_nb next_frame"
    and "poll_n poll 1 empty_body = [Ready None]" and "uri_authority (rp_uri parts) = Some a"
  shows "client_send kit (h3_client_new T C rt never NB into next_frame norm w0) \<lparr>rq_parts = parts, rq_body = empty_body\<rparr> s =
    client_send kit (h3_client_new T C rt never NB' into next_frame norm w0) \<lparr>rq_parts = parts, rq_body = empty_body\<rparr> s"
proof -
  have polls: "poll_n poll (Suc (length [])) (rq_body \<lparr>rq_parts = parts, rq_body = empty_body\<rparr>) = [] @ [ended None]"
    using assms(3) by (simp add: ended_def)
  have auth: "uri_authority (request_uri \<lparr>rq_parts = parts, rq_body = empty_body\<rparr>) = Some a" using assms(4) by simp
  have going: "list_all going_on []" by simp
  note sent = client_send_h3 [OF assms(1,2) polls going auth]
  have "get_session (h3_base T C rt never NB into next_frame norm w0) u a =
      get_session (h3_base T C rt never NB' into next_frame norm w0) u a" for u
    by (rule ext) (simp add: get_session_def base_service_new_def split: option.split)
  then show ?thesis unfolding sent by simp
qed

theorem never_buf_unreached_witness:
  "client_send (script_kit (\<lambda>d. d) Foreign) (h3_client_new sample_transport sample_stack sample_runtime
      (\<lambda>req self. io_error (Msg [])) bytes_buf (\<lambda>e. e) script_next (\<lambda>r. \<lparr>rs_parts = rs_parts r, rs_body = []\<rparr>) 0)
      \<lparr>rq_parts = sample_post_parts, rq_body = sample_full []\<rparr> \<lparr>pool = Map.empty, world = 0\<rparr> =
   client_send (script_kit (\<lambda>d. d) Foreign) (h3_client_new sample_transport sample_stack sample_runtime
      (\<lambda>req self. io_error (Msg [])) \<lparr>buf_remaining = (\<lambda>b. 5), buf_chunk = (\<lambda>b. [1]), buf_advance = (\<lambda>n b. b),
        buf_copy_to_bytes = (\<lambda>n b. ([], b))\<rparr> (\<lambda>e. e) script_next (\<lambda>r. \<lparr>rs_parts = rs_parts r, rs_body = []\<rparr>) 0)
      \<lparr>rq_parts = sample_post_parts, rq_body = sample_full []\<rparr> \<lparr>pool = Map.empty, world = 0\<rparr>"
  by (rule never_buf_unreached [OF script.body_kit_laws_axioms script_frames.frame_future_axioms, where a = "''h''"])
    (simp_all add: sample_full_def sample_post_parts_def with_content_type_def sample_uri_def)

end
