(* ===== verification/Tokio.thy ===== *)
theory Tokio
  imports Transport Streams
begin

text \<open>
  The Tokio transport (\<open>navar-tokio/src/lib.rs\<close>): TCP with optional TLS.

  Sockets, name resolution and the TLS library are the record \<open>tokio_net\<close>, a parameter.  The
  Cargo feature \<open>tls\<close> is the flag \<open>tls\<close> of the definitions that it changes; without it the
  constructors \<open>TlsIo\<close>, \<open>TlsSend\<close> and \<open>TlsRecv\<close> do not exist in the program and are never built here.
\<close>

section \<open>The transport\<close>

record ('roots, 'connector, 'name, 'addr, 'tcp, 'tlss, 'w, 'x) tokio_net =
  tn_webpki_roots :: 'roots
  tn_add_root :: "byte list \<Rightarrow> 'roots \<Rightarrow> 'roots"
  tn_connector :: "'roots \<Rightarrow> byte list list \<Rightarrow> 'connector"
  tn_lookup_host :: "string \<Rightarrow> 'w \<Rightarrow> ('x + 'addr list) \<times> 'w"
  tn_server_name :: "string \<Rightarrow> 'x + 'name"
  tn_tcp_connect :: "'addr \<Rightarrow> 'w \<Rightarrow> ('x + 'tcp) \<times> 'w"
  tn_set_nodelay :: "'tcp \<Rightarrow> 'w \<Rightarrow> 'w"
  tn_tls_connect :: "'connector \<Rightarrow> 'name \<Rightarrow> 'tcp \<Rightarrow> 'w \<Rightarrow> ('x + 'tlss) \<times> 'w"
  tn_tls_alpn :: "'tlss \<Rightarrow> byte list option"

record 'connector tokio_transport =
  tt_tls :: "'connector option"

definition tokio_transport_new ::
  "('roots, 'connector, 'name, 'addr, 'tcp, 'tlss, 'w, 'x) tokio_net \<Rightarrow> bool \<Rightarrow> byte list list \<Rightarrow>
   byte list option \<Rightarrow> 'connector tokio_transport" where
  "tokio_transport_new N tls alpns ca_cert =
     (if tls then
        (let roots = tn_webpki_roots N;
             roots = (case ca_cert of Some cert_bytes \<Rightarrow> tn_add_root N cert_bytes roots | None \<Rightarrow> roots)
         in \<lparr>tt_tls = Some (tn_connector N roots alpns)\<rparr>)
      else \<lparr>tt_tls = None\<rparr>)"

text \<open>The protocols \<open>h2\<close> and \<open>http/1.1\<close>.\<close>

definition default_alpns :: "byte list list" where
  "default_alpns = [[0x68, 0x32], [0x68, 0x74, 0x74, 0x70, 0x2F, 0x31, 0x2E, 0x31]]"

definition tokio_transport_default ::
  "('roots, 'connector, 'name, 'addr, 'tcp, 'tlss, 'w, 'x) tokio_net \<Rightarrow> bool \<Rightarrow> 'connector tokio_transport" where
  "tokio_transport_default N tls = tokio_transport_new N tls default_alpns None"

definition tokio_spawn :: "('fut \<Rightarrow> 'w \<Rightarrow> 'w) \<Rightarrow> ('fut, 'w) async_runtime" where
  "tokio_spawn spawn_task = \<lparr>spawn = spawn_task\<rparr>"

section \<open>Streams\<close>

datatype ('tcp, 'tlss) tokio_io = PlainIo 'tcp | TlsIo 'tlss
datatype ('tcpw, 'tlsw) tokio_send_stream = PlainSend 'tcpw | TlsSend 'tlsw
datatype ('tcpr, 'tlsr) tokio_recv_stream = PlainRecv 'tcpr | TlsRecv 'tlsr

text \<open>The dispatch of the polls over the two variants.\<close>

definition tokio_io_write ::
  "('tcp, 'e) async_write \<Rightarrow> ('tlss, 'e) async_write \<Rightarrow> (('tcp, 'tlss) tokio_io, 'e) async_write" where
  "tokio_io_write P T =
     \<lparr>poll_write = (\<lambda>buf self. case self of
          PlainIo io \<Rightarrow> map_prod id PlainIo (poll_write P buf io)
        | TlsIo io \<Rightarrow> map_prod id TlsIo (poll_write T buf io)),
      poll_flush = (\<lambda>self. case self of
          PlainIo io \<Rightarrow> map_prod id PlainIo (poll_flush P io)
        | TlsIo io \<Rightarrow> map_prod id TlsIo (poll_flush T io)),
      poll_close = (\<lambda>self. case self of
          PlainIo io \<Rightarrow> map_prod id PlainIo (poll_close P io)
        | TlsIo io \<Rightarrow> map_prod id TlsIo (poll_close T io))\<rparr>"

definition tokio_io_read ::
  "('tcp, 'e) async_read \<Rightarrow> ('tlss, 'e) async_read \<Rightarrow> (('tcp, 'tlss) tokio_io, 'e) async_read" where
  "tokio_io_read P T =
     \<lparr>poll_read = (\<lambda>buf self. case self of
          PlainIo io \<Rightarrow> map_prod id (map_prod id PlainIo) (poll_read P buf io)
        | TlsIo io \<Rightarrow> map_prod id (map_prod id TlsIo) (poll_read T buf io))\<rparr>"

definition tokio_send_write ::
  "('tcpw, 'e) async_write \<Rightarrow> ('tlsw, 'e) async_write \<Rightarrow> (('tcpw, 'tlsw) tokio_send_stream, 'e) async_write" where
  "tokio_send_write P T =
     \<lparr>poll_write = (\<lambda>buf self. case self of
          PlainSend io \<Rightarrow> map_prod id PlainSend (poll_write P buf io)
        | TlsSend io \<Rightarrow> map_prod id TlsSend (poll_write T buf io)),
      poll_flush = (\<lambda>self. case self of
          PlainSend io \<Rightarrow> map_prod id PlainSend (poll_flush P io)
        | TlsSend io \<Rightarrow> map_prod id TlsSend (poll_flush T io)),
      poll_close = (\<lambda>self. case self of
          PlainSend io \<Rightarrow> map_prod id PlainSend (poll_close P io)
        | TlsSend io \<Rightarrow> map_prod id TlsSend (poll_close T io))\<rparr>"

definition tokio_recv_read ::
  "('tcpr, 'e) async_read \<Rightarrow> ('tlsr, 'e) async_read \<Rightarrow> (('tcpr, 'tlsr) tokio_recv_stream, 'e) async_read" where
  "tokio_recv_read P T =
     \<lparr>poll_read = (\<lambda>buf self. case self of
          PlainRecv io \<Rightarrow> map_prod id (map_prod id PlainRecv) (poll_read P buf io)
        | TlsRecv io \<Rightarrow> map_prod id (map_prod id TlsRecv) (poll_read T buf io))\<rparr>"

definition tokio_io_stream_id :: "('tcp, 'tlss) tokio_io \<Rightarrow> 64 word" where
  "tokio_io_stream_id s = 0"

definition tokio_send_stream_id :: "('tcpw, 'tlsw) tokio_send_stream \<Rightarrow> 64 word" where
  "tokio_send_stream_id s = 0"

definition tokio_recv_stream_id :: "('tcpr, 'tlsr) tokio_recv_stream \<Rightarrow> 64 word" where
  "tokio_recv_stream_id s = 0"

text \<open>Both library splits give the read half first.\<close>

fun tokio_io_split ::
  "('tcp \<Rightarrow> 'tcpr \<times> 'tcpw) \<Rightarrow> ('tlss \<Rightarrow> 'tlsr \<times> 'tlsw) \<Rightarrow> ('tcp, 'tlss) tokio_io \<Rightarrow>
   ('tcpw, 'tlsw) tokio_send_stream \<times> ('tcpr, 'tlsr) tokio_recv_stream" where
  "tokio_io_split into_split tls_split (PlainIo io) =
     (case into_split io of (read, write) \<Rightarrow> (PlainSend write, PlainRecv read))"
| "tokio_io_split into_split tls_split (TlsIo io) =
     (case tls_split io of (read, write) \<Rightarrow> (TlsSend write, TlsRecv read))"

fun tokio_io_alpn ::
  "('roots, 'connector, 'name, 'addr, 'tcp, 'tlss, 'w, 'x) tokio_net \<Rightarrow> ('tcp, 'tlss) tokio_io \<Rightarrow>
   byte list option" where
  "tokio_io_alpn N (TlsIo s) = tn_tls_alpn N s"
| "tokio_io_alpn N (PlainIo s) = None"

definition tokio_stream ::
  "('roots, 'connector, 'name, 'addr, 'tcp, 'tlss, 'w, 'x) tokio_net \<Rightarrow>
   ('tcp \<Rightarrow> 'tcpr \<times> 'tcpw) \<Rightarrow> ('tlss \<Rightarrow> 'tlsr \<times> 'tlsw) \<Rightarrow>
   (('tcp, 'tlss) tokio_io, ('tcpw, 'tlsw) tokio_send_stream, ('tcpr, 'tlsr) tokio_recv_stream) bidi_stream" where
  "tokio_stream N into_split tls_split =
     \<lparr>stream_id = tokio_io_stream_id, bidi_split = tokio_io_split into_split tls_split,
      bidi_alpn_protocol = tokio_io_alpn N\<rparr>"

section \<open>Connections\<close>

record ('addr, 'connector, 'name) tokio_connection =
  tc_addr :: 'addr
  tc_tls_config :: "('connector \<times> 'name) option"

definition tokio_open_bidirectional ::
  "('roots, 'connector, 'name, 'addr, 'tcp, 'tlss, 'w, 'x) tokio_net \<Rightarrow> bool \<Rightarrow>
   ('addr, 'connector, 'name) tokio_connection \<Rightarrow> ('w, 'x, ('tcp, 'tlss) tokio_io) io" where
  "tokio_open_bidirectional N tls conn =
     io_bind (foreign_io (tn_tcp_connect N (tc_addr conn))) (\<lambda>tcp w.
       let w = tn_set_nodelay N tcp w in
       case (if tls then tc_tls_config conn else None) of
         Some (connector, domain) \<Rightarrow>
           io_bind (foreign_io (tn_tls_connect N connector domain tcp))
             (\<lambda>stream. io_return (TlsIo stream)) w
       | None \<Rightarrow> (Inr (PlainIo tcp), w))"

definition tokio_open_unidirectional :: "'conn \<Rightarrow> ('w, 'x, 'send) io" where
  "tokio_open_unidirectional conn =
     io_error (Msg ''TokioTransport: unidirectional streams are not supported'')"

definition tokio_accept_bidirectional :: "'conn \<Rightarrow> ('w, 'x, 'bidi) io" where
  "tokio_accept_bidirectional conn =
     io_error (Msg ''TokioTransport: accepting inbound streams is not supported'')"

definition tokio_accept_unidirectional :: "'conn \<Rightarrow> ('w, 'x, 'recv) io" where
  "tokio_accept_unidirectional conn =
     io_error (Msg ''TokioTransport: accepting inbound streams is not supported'')"

definition tokio_conn ::
  "('roots, 'connector, 'name, 'addr, 'tcp, 'tlss, 'w, 'x) tokio_net \<Rightarrow> bool \<Rightarrow>
   (('addr, 'connector, 'name) tokio_connection, ('tcp, 'tlss) tokio_io, ('tcpw, 'tlsw) tokio_send_stream,
    ('tcpr, 'tlsr) tokio_recv_stream, 'w, 'x) connection" where
  "tokio_conn N tls =
     \<lparr>open_bidirectional = tokio_open_bidirectional N tls,
      open_unidirectional = tokio_open_unidirectional,
      accept_bidirectional = tokio_accept_bidirectional,
      accept_unidirectional = tokio_accept_unidirectional,
      conn_alpn_protocol = default_alpn_protocol\<rparr>"

text \<open>The decimal form of a port.\<close>

fun decimal :: "nat \<Rightarrow> string" where
  "decimal n = (if n < 10 then [char_of (48 + n)] else decimal (n div 10) @ [char_of (48 + n mod 10)])"

declare decimal.simps [simp del]

definition tokio_port :: "uri \<Rightarrow> 16 word" where
  "tokio_port u =
     (case uri_port_u16 u of Some p \<Rightarrow> p
      | None \<Rightarrow> if uri_scheme_str u = Some ''https'' then 443 else 80)"

definition tokio_addr_str :: "string \<Rightarrow> 16 word \<Rightarrow> string" where
  "tokio_addr_str host port = host @ '':'' @ decimal (unat port)"

definition tokio_tls_config ::
  "('roots, 'connector, 'name, 'addr, 'tcp, 'tlss, 'w, 'x) tokio_net \<Rightarrow> bool \<Rightarrow>
   'connector tokio_transport \<Rightarrow> uri \<Rightarrow> string \<Rightarrow> 'x error + ('connector \<times> 'name) option" where
  "tokio_tls_config N tls self u host =
     (if tls \<and> uri_scheme_str u = Some ''https'' then
        result_bind (ok_or_msg ''TLS support not configured'' (tt_tls self)) (\<lambda>connector.
        result_bind (with_context ''invalid DNS name'' (tn_server_name N host)) (\<lambda>domain.
          Inr (Some (connector, domain))))
      else Inr None)"

definition tokio_connect ::
  "('roots, 'connector, 'name, 'addr, 'tcp, 'tlss, 'w, 'x) tokio_net \<Rightarrow> bool \<Rightarrow>
   'connector tokio_transport \<Rightarrow> uri \<Rightarrow> ('w, 'x, ('addr, 'connector, 'name) tokio_connection) io" where
  "tokio_connect N tls self u =
     io_bind (lift_result (ok_or_msg ''URI missing host'' (uri_host u))) (\<lambda>host.
     io_bind (foreign_io (tn_lookup_host N (tokio_addr_str host (tokio_port u)))) (\<lambda>addrs.
     io_bind (lift_result (ok_or_msg ''DNS resolution failed'' (case addrs of [] \<Rightarrow> None | a # _ \<Rightarrow> Some a))) (\<lambda>addr.
     io_bind (lift_result (tokio_tls_config N tls self u host)) (\<lambda>tls_config.
       io_return \<lparr>tc_addr = addr, tc_tls_config = tls_config\<rparr>))))"

definition tokio_transport_plugin ::
  "('roots, 'connector, 'name, 'addr, 'tcp, 'tlss, 'w, 'x) tokio_net \<Rightarrow> bool \<Rightarrow> 'connector tokio_transport \<Rightarrow>
   (('addr, 'connector, 'name) tokio_connection, 'w, 'x) transport_plugin" where
  "tokio_transport_plugin N tls self = \<lparr>connect = tokio_connect N tls self\<rparr>"

section \<open>Streams over lawful sockets\<close>

text \<open>
  The stream enums forward every poll to the variant they hold: when plain and TLS sockets keep
  the contract of writers, so do \<open>TokioIo\<close> and \<open>TokioSendStream\<close>, with the bytes written to the
  socket inside; when they keep the contract of readers, so do \<open>TokioIo\<close> and \<open>TokioRecvStream\<close>.
\<close>

theorem tokio_streams_lawful:
  assumes "recording_writer P wp" and "recording_writer T wt" and "lawful_reader P' ip" and "lawful_reader T' it"
  shows "recording_writer (tokio_io_write P T) (case_tokio_io wp wt) \<and>
    recording_writer (tokio_send_write P T) (case_tokio_send_stream wp wt) \<and>
    lawful_reader (tokio_io_read P' T') (case_tokio_io ip it) \<and>
    lawful_reader (tokio_recv_read P' T') (case_tokio_recv_stream ip it)"
proof (intro conjI)
  note P = recording_writer.axioms [OF assms(1)] and T = recording_writer.axioms [OF assms(2)]
  note w = nonzero_writer.write_bound [OF P(1)] nonzero_writer.write_bound [OF T(1)]
    nonzero_writer.write_nonzero [OF P(1)] nonzero_writer.write_nonzero [OF T(1)]
  note r = recording_writer.write_ok [OF assms(1)] recording_writer.write_ok [OF assms(2)]
    recording_writer.write_err [OF assms(1)] recording_writer.write_err [OF assms(2)]
    recording_writer.write_pending [OF assms(1)] recording_writer.write_pending [OF assms(2)]
    recording_writer.flush_written [OF assms(1)] recording_writer.flush_written [OF assms(2)]
  show "recording_writer (tokio_io_write P T) (case_tokio_io wp wt)"
    by unfold_locales
      (auto simp: tokio_io_write_def map_prod_eq_iff split: tokio_io.splits intro: w dest: r(1-6) simp: r(7,8))
  show "recording_writer (tokio_send_write P T) (case_tokio_send_stream wp wt)"
    by unfold_locales
      (auto simp: tokio_send_write_def map_prod_eq_iff split: tokio_send_stream.splits intro: w dest: r(1-6) simp: r(7,8))
  note i = lawful_reader.read_ok [OF assms(3)] lawful_reader.read_ok [OF assms(4)]
    lawful_reader.read_eof [OF assms(3)] lawful_reader.read_eof [OF assms(4)]
    lawful_reader.read_err [OF assms(3)] lawful_reader.read_err [OF assms(4)]
    lawful_reader.read_pending [OF assms(3)] lawful_reader.read_pending [OF assms(4)]
  show "lawful_reader (tokio_io_read P' T') (case_tokio_io ip it)"
    by unfold_locales
      (auto simp: tokio_io_read_def map_prod_eq_iff split: tokio_io.splits dest: i)
  show "lawful_reader (tokio_recv_read P' T') (case_tokio_recv_stream ip it)"
    by unfold_locales
      (auto simp: tokio_recv_read_def map_prod_eq_iff split: tokio_recv_stream.splits dest: i)
qed

theorem tokio_streams_lawful_witness:
  "recording_writer (tokio_io_write (pipe_write 1) (pipe_write 2 :: (pipe, nat) async_write))
     (case_tokio_io pipe_out pipe_out)"
  using tokio_streams_lawful
    [OF pipe_w.recording_writer_axioms pipe_w.recording_writer_axioms
        pipe_r.lawful_reader_axioms pipe_r.lawful_reader_axioms] by blast

section \<open>Connecting\<close>

lemma first_address: "(case addrs of [] \<Rightarrow> None | a # _ \<Rightarrow> Some a) = Some a \<longleftrightarrow> (\<exists>as. addrs = a # as)"
  by (cases addrs) auto

text \<open>The decimal form tells ports apart.\<close>

fun undecimal :: "string \<Rightarrow> nat" where
  "undecimal ds = foldl (\<lambda>n c. 10 * n + (of_char c - 48)) 0 ds"

lemma undecimal_decimal: "undecimal (decimal n) = n"
proof (induction n rule: decimal.induct)
  case (1 n)
  show ?case
  proof (cases "n < 10")
    case True
    then show ?thesis by (simp add: decimal.simps [of n])
  next
    case False
    have "n mod 10 < 10" by simp
    then show ?thesis using 1 False by (simp add: decimal.simps [of n])
  qed
qed

lemma tokio_addr_str_eq_iff: "tokio_addr_str host p = tokio_addr_str host q \<longleftrightarrow> p = q"
  using undecimal_decimal by (metis tokio_addr_str_def append.right_neutral same_append_eq word_unat_eq_iff)

text \<open>
  A connect that succeeds has looked up \<open>host:port\<close> and nothing else, with the port of the URI or
  the default 443 for \<open>https\<close> and 80 otherwise, in decimal; it goes to the first address found.
  It carries a TLS configuration exactly when TLS is compiled in and the scheme is \<open>https\<close>: then
  the server name is that of the host, made with the connector of the transport.
\<close>

theorem tokio_connect_target:
  assumes "tokio_connect N tls self u w = (Inr conn, w')"
  shows "\<exists>host addrs. uri_host u = Some host \<and>
    tn_lookup_host N (host @ '':'' @ decimal (case uri_port_u16 u of Some p \<Rightarrow> unat p
        | None \<Rightarrow> if uri_scheme_str u = Some ''https'' then 443 else 80)) w = (Inr (tc_addr conn # addrs), w') \<and>
    (tc_tls_config conn \<noteq> None \<longleftrightarrow> tls \<and> uri_scheme_str u = Some ''https'') \<and>
    (\<forall>c name. tc_tls_config conn = Some (c, name) \<longrightarrow> tt_tls self = Some c \<and> tn_server_name N host = Inr name)"
proof -
  from assms obtain host addrs where parts: "uri_host u = Some host"
      "tn_lookup_host N (tokio_addr_str host (tokio_port u)) w = (Inr (tc_addr conn # addrs), w')"
      "tokio_tls_config N tls self u host = Inr (tc_tls_config conn)"
    by (auto simp: tokio_connect_def io_ok first_address)
  have "unat (tokio_port u) = (case uri_port_u16 u of Some p \<Rightarrow> unat p
      | None \<Rightarrow> if uri_scheme_str u = Some ''https'' then 443 else 80)"
    by (simp add: tokio_port_def split: option.split)
  moreover have "tc_tls_config conn \<noteq> None \<longleftrightarrow> tls \<and> uri_scheme_str u = Some ''https''"
      "tc_tls_config conn = Some (c, name) \<Longrightarrow> tt_tls self = Some c \<and> tn_server_name N host = Inr name"
    for c name
    using parts(3) by (cases "tc_tls_config conn";
        auto simp: tokio_tls_config_def io_ok split: if_splits)+
  ultimately show ?thesis
    using parts(1,2) by (intro exI [of _ host] exI [of _ addrs]) (simp add: tokio_addr_str_def)
qed

type_synonym sample_net = "(byte list list, byte list list, string, string, nat, nat, string list, nat) tokio_net"

definition sample_net :: sample_net where
  "sample_net =
     \<lparr>tn_webpki_roots = [], tn_add_root = (\<lambda>c r. c # r), tn_connector = (\<lambda>r alpns. alpns),
      tn_lookup_host = (\<lambda>name w. (Inr [name], w @ [name])),
      tn_server_name = (\<lambda>host. if host = [] then Inl 1 else Inr host),
      tn_tcp_connect = (\<lambda>a w. (Inr (length w), w)), tn_set_nodelay = (\<lambda>t w. w),
      tn_tls_connect = (\<lambda>c n t w. (Inr t, w)), tn_tls_alpn = (\<lambda>s. Some [0x68, 0x32])\<rparr>"

lemma sample_connect:
  "tokio_connect sample_net tls (tokio_transport_default sample_net tls) (sample_uri (Some ''https'')) [] =
     (Inr \<lparr>tc_addr = ''h:443'', tc_tls_config = (if tls then Some (default_alpns, ''h'') else None)\<rparr>, [''h:443''])"
  by (simp add: tokio_connect_def tokio_transport_default_def tokio_transport_new_def sample_net_def
      sample_uri_def io_run tokio_tls_config_def
      tokio_addr_str_def tokio_port_def decimal.simps char_of_def bit_Suc_0_iff)

theorem tokio_connect_target_witness:
  "\<exists>conn w'. tokio_connect sample_net True (tokio_transport_default sample_net True)
       (sample_uri (Some ''https'')) [] = (Inr conn, w') \<and> tc_tls_config conn \<noteq> None \<and>
     tn_lookup_host sample_net ''h:443'' [] = (Inr [tc_addr conn], w')"
  using tokio_connect_target [OF sample_connect [of True]] sample_connect [of True]
  by (simp add: sample_uri_def sample_net_def decimal.simps char_of_def bit_Suc_0_iff)

text \<open>
  C8: The stream opened on a connection is encrypted exactly when the crate was built with the \<open>tls\<close>
  feature and the scheme is \<open>https\<close>: an \<open>https\<close> request never falls back to plain TCP with the
  feature, and is never encrypted without it.
\<close>

theorem tokio_encrypts_https:
  assumes "tokio_connect N tls self u w = (Inr conn, w1)"
    and "tokio_open_bidirectional N tls conn w2 = (Inr io, w3)"
  shows "(\<exists>s. io = TlsIo s) \<longleftrightarrow> tls \<and> uri_scheme_str u = Some ''https''"
proof -
  from assms(1) have "tc_tls_config conn \<noteq> None \<longleftrightarrow> tls \<and> uri_scheme_str u = Some ''https''"
    by (auto simp: tokio_connect_def io_ok tokio_tls_config_def split: if_splits)
  moreover from assms(2) have "(\<exists>s. io = TlsIo s) \<longleftrightarrow> tls \<and> tc_tls_config conn \<noteq> None"
    by (auto simp: tokio_open_bidirectional_def io_ok Let_def split: option.splits if_splits prod.splits)
  ultimately show ?thesis by blast
qed

text \<open>A build without the feature: the answer to an \<open>https\<close> URI is a plain TCP stream to port 443.\<close>

theorem tokio_encrypts_https_witness:
  "\<exists>io w'. tokio_open_bidirectional sample_net False \<lparr>tc_addr = ''h:443'', tc_tls_config = None\<rparr> [''h:443''] =
     (Inr io, w') \<and> (\<forall>s. io \<noteq> TlsIo s)"
proof -
  have opened: "tokio_open_bidirectional sample_net False \<lparr>tc_addr = ''h:443'', tc_tls_config = None\<rparr> [''h:443''] =
      (Inr (PlainIo 1), [''h:443''])"
    by (simp add: tokio_open_bidirectional_def sample_net_def io_run)
  from tokio_encrypts_https [OF sample_connect [of False, simplified] opened] opened show ?thesis by auto
qed

end
