(* ===== verification/Iroh.thy ===== *)
theory Iroh
  imports Tokio Hyper
begin

text \<open>
  The Iroh transport (\<open>navar-iroh/src/lib.rs\<close>): QUIC connections to a peer given by its public key.

  The \<open>iroh\<close> endpoint, its connections and their streams are the record \<open>iroh_net\<close>, a parameter.
  A QUIC stream is known by the three parts of its identifier: which side opened it, whether it is
  unidirectional, and its index among those.
\<close>

record quic_stream_id =
  qs_initiated_by_client :: bool
  qs_unidirectional :: bool
  qs_index :: "64 word"

record ('ep, 'id, 'q, 'qs, 'qr, 'w, 'x) iroh_net =
  in_endpoint_id :: "string \<Rightarrow> 'x + 'id"
  in_connect :: "'ep \<Rightarrow> 'id \<Rightarrow> byte list \<Rightarrow> 'w \<Rightarrow> ('x + 'q) \<times> 'w"
  in_open_bi :: "'q \<Rightarrow> 'w \<Rightarrow> ('x + 'qs \<times> 'qr) \<times> 'w"
  in_open_uni :: "'q \<Rightarrow> 'w \<Rightarrow> ('x + 'qs) \<times> 'w"
  in_accept_bi :: "'q \<Rightarrow> 'w \<Rightarrow> ('x + 'qs \<times> 'qr) \<times> 'w"
  in_accept_uni :: "'q \<Rightarrow> 'w \<Rightarrow> ('x + 'qr) \<times> 'w"
  in_alpn :: "'q \<Rightarrow> byte list"
  in_send_id :: "'qs \<Rightarrow> quic_stream_id"
  in_recv_id :: "'qr \<Rightarrow> quic_stream_id"

section \<open>The transport\<close>

record 'ep iroh_transport =
  it_endpoint :: 'ep
  it_alpns :: "byte list list"

definition iroh_transport_new :: "'ep \<Rightarrow> byte list list \<Rightarrow> 'ep iroh_transport" where
  "iroh_transport_new endpoint alpns = \<lparr>it_endpoint = endpoint, it_alpns = alpns\<rparr>"

record 'q iroh_connection =
  ic_inner :: 'q

text \<open>The bytes of \<open>n0/navar\<close>.\<close>

definition default_alpn :: "byte list" where
  "default_alpn = [0x6E, 0x30, 0x2F, 0x6E, 0x61, 0x76, 0x61, 0x72]"

definition iroh_alpn :: "'ep iroh_transport \<Rightarrow> byte list" where
  "iroh_alpn self = (case it_alpns self of v # _ \<Rightarrow> v | [] \<Rightarrow> default_alpn)"

definition context_io :: "string \<Rightarrow> ('w \<Rightarrow> ('x + 'a) \<times> 'w) \<Rightarrow> ('w, 'x, 'a) io" where
  "context_io m f w = (case f w of (r, w') \<Rightarrow> (with_context m r, w'))"

declare context_io_def [io_run]

definition iroh_connect ::
  "('ep, 'id, 'q, 'qs, 'qr, 'w, 'x) iroh_net \<Rightarrow> 'ep iroh_transport \<Rightarrow> uri \<Rightarrow> ('w, 'x, 'q iroh_connection) io" where
  "iroh_connect N self u =
     io_bind (lift_result (ok_or_msg ''URI missing host'' (uri_host u))) (\<lambda>pubkey_str.
     io_bind (lift_result (with_context ''Invalid Iroh Public Key'' (in_endpoint_id N pubkey_str))) (\<lambda>remote_id.
     let alpn = iroh_alpn self in
     io_bind (context_io ''Failed to connect to iroh endpoint''
               (in_connect N (it_endpoint self) remote_id alpn)) (\<lambda>connection.
       io_return \<lparr>ic_inner = connection\<rparr>)))"

definition iroh_transport_plugin ::
  "('ep, 'id, 'q, 'qs, 'qr, 'w, 'x) iroh_net \<Rightarrow> 'ep iroh_transport \<Rightarrow>
   ('q iroh_connection, 'w, 'x) transport_plugin" where
  "iroh_transport_plugin N self = \<lparr>connect = iroh_connect N self\<rparr>"

section \<open>Streams\<close>

datatype 'qs iroh_send_stream = IrohSendStream 'qs
datatype 'qr iroh_recv_stream = IrohRecvStream 'qr

record ('qs, 'qr) iroh_bidi_stream =
  ib_send :: "'qs iroh_send_stream"
  ib_recv :: "'qr iroh_recv_stream"

fun iroh_send_stream_id :: "('ep, 'id, 'q, 'qs, 'qr, 'w, 'x) iroh_net \<Rightarrow> 'qs iroh_send_stream \<Rightarrow> 64 word" where
  "iroh_send_stream_id N (IrohSendStream s) = qs_index (in_send_id N s)"

fun iroh_recv_stream_id :: "('ep, 'id, 'q, 'qs, 'qr, 'w, 'x) iroh_net \<Rightarrow> 'qr iroh_recv_stream \<Rightarrow> 64 word" where
  "iroh_recv_stream_id N (IrohRecvStream r) = qs_index (in_recv_id N r)"

definition iroh_bidi_stream_id ::
  "('ep, 'id, 'q, 'qs, 'qr, 'w, 'x) iroh_net \<Rightarrow> ('qs, 'qr) iroh_bidi_stream \<Rightarrow> 64 word" where
  "iroh_bidi_stream_id N b = iroh_send_stream_id N (ib_send b)"

definition iroh_send_write :: "('qs, 'e) async_write \<Rightarrow> ('qs iroh_send_stream, 'e) async_write" where
  "iroh_send_write W =
     \<lparr>poll_write = (\<lambda>buf self. case self of IrohSendStream s \<Rightarrow> map_prod id IrohSendStream (poll_write W buf s)),
      poll_flush = (\<lambda>self. case self of IrohSendStream s \<Rightarrow> map_prod id IrohSendStream (poll_flush W s)),
      poll_close = (\<lambda>self. case self of IrohSendStream s \<Rightarrow> map_prod id IrohSendStream (poll_close W s))\<rparr>"

definition iroh_recv_read :: "('qr, 'e) async_read \<Rightarrow> ('qr iroh_recv_stream, 'e) async_read" where
  "iroh_recv_read R =
     \<lparr>poll_read = (\<lambda>buf self. case self of IrohRecvStream r \<Rightarrow>
        map_prod id (map_prod id IrohRecvStream) (poll_read R buf r))\<rparr>"

definition iroh_bidi_read ::
  "('qr iroh_recv_stream, 'e) async_read \<Rightarrow> (('qs, 'qr) iroh_bidi_stream, 'e) async_read" where
  "iroh_bidi_read R =
     \<lparr>poll_read = (\<lambda>buf self. map_prod id (map_prod id (\<lambda>r. self\<lparr>ib_recv := r\<rparr>)) (poll_read R buf (ib_recv self)))\<rparr>"

definition iroh_bidi_write ::
  "('qs iroh_send_stream, 'e) async_write \<Rightarrow> (('qs, 'qr) iroh_bidi_stream, 'e) async_write" where
  "iroh_bidi_write W =
     \<lparr>poll_write = (\<lambda>buf self. map_prod id (\<lambda>s. self\<lparr>ib_send := s\<rparr>) (poll_write W buf (ib_send self))),
      poll_flush = (\<lambda>self. map_prod id (\<lambda>s. self\<lparr>ib_send := s\<rparr>) (poll_flush W (ib_send self))),
      poll_close = (\<lambda>self. map_prod id (\<lambda>s. self\<lparr>ib_send := s\<rparr>) (poll_close W (ib_send self)))\<rparr>"

definition iroh_bidi_split ::
  "('qs, 'qr) iroh_bidi_stream \<Rightarrow> 'qs iroh_send_stream \<times> 'qr iroh_recv_stream" where
  "iroh_bidi_split self = (ib_send self, ib_recv self)"

definition iroh_bidi_alpn :: "('qs, 'qr) iroh_bidi_stream \<Rightarrow> byte list option" where
  "iroh_bidi_alpn self = None"

definition iroh_stream ::
  "('ep, 'id, 'q, 'qs, 'qr, 'w, 'x) iroh_net \<Rightarrow>
   (('qs, 'qr) iroh_bidi_stream, 'qs iroh_send_stream, 'qr iroh_recv_stream) bidi_stream" where
  "iroh_stream N =
     \<lparr>stream_id = iroh_bidi_stream_id N, bidi_split = iroh_bidi_split, bidi_alpn_protocol = iroh_bidi_alpn\<rparr>"

section \<open>Connections\<close>

definition iroh_open_bidirectional ::
  "('ep, 'id, 'q, 'qs, 'qr, 'w, 'x) iroh_net \<Rightarrow> 'q iroh_connection \<Rightarrow> ('w, 'x, ('qs, 'qr) iroh_bidi_stream) io" where
  "iroh_open_bidirectional N self =
     io_bind (foreign_io (in_open_bi N (ic_inner self))) (\<lambda>(send, recv).
       io_return \<lparr>ib_send = IrohSendStream send, ib_recv = IrohRecvStream recv\<rparr>)"

definition iroh_open_unidirectional ::
  "('ep, 'id, 'q, 'qs, 'qr, 'w, 'x) iroh_net \<Rightarrow> 'q iroh_connection \<Rightarrow> ('w, 'x, 'qs iroh_send_stream) io" where
  "iroh_open_unidirectional N self =
     io_bind (foreign_io (in_open_uni N (ic_inner self))) (\<lambda>send. io_return (IrohSendStream send))"

definition iroh_accept_bidirectional ::
  "('ep, 'id, 'q, 'qs, 'qr, 'w, 'x) iroh_net \<Rightarrow> 'q iroh_connection \<Rightarrow> ('w, 'x, ('qs, 'qr) iroh_bidi_stream) io" where
  "iroh_accept_bidirectional N self =
     io_bind (foreign_io (in_accept_bi N (ic_inner self))) (\<lambda>(send, recv).
       io_return \<lparr>ib_send = IrohSendStream send, ib_recv = IrohRecvStream recv\<rparr>)"

definition iroh_accept_unidirectional ::
  "('ep, 'id, 'q, 'qs, 'qr, 'w, 'x) iroh_net \<Rightarrow> 'q iroh_connection \<Rightarrow> ('w, 'x, 'qr iroh_recv_stream) io" where
  "iroh_accept_unidirectional N self =
     io_bind (foreign_io (in_accept_uni N (ic_inner self))) (\<lambda>recv. io_return (IrohRecvStream recv))"

definition iroh_conn_alpn :: "('ep, 'id, 'q, 'qs, 'qr, 'w, 'x) iroh_net \<Rightarrow> 'q iroh_connection \<Rightarrow> byte list option" where
  "iroh_conn_alpn N self = Some (in_alpn N (ic_inner self))"

definition iroh_conn ::
  "('ep, 'id, 'q, 'qs, 'qr, 'w, 'x) iroh_net \<Rightarrow>
   ('q iroh_connection, ('qs, 'qr) iroh_bidi_stream, 'qs iroh_send_stream, 'qr iroh_recv_stream, 'w, 'x) connection" where
  "iroh_conn N =
     \<lparr>open_bidirectional = iroh_open_bidirectional N, open_unidirectional = iroh_open_unidirectional N,
      accept_bidirectional = iroh_accept_bidirectional N, accept_unidirectional = iroh_accept_unidirectional N,
      conn_alpn_protocol = iroh_conn_alpn N\<rparr>"

section \<open>Properties\<close>

lemma iroh_send_lawful:
  assumes "recording_writer W written"
  shows "recording_writer (iroh_send_write W) (case_iroh_send_stream written)"
proof -
  have "recording_writer (iroh_send_write W) (\<lambda>s. written (case_iroh_send_stream id s))"
    by (rule recording_writer_via [OF assms, where put = "\<lambda>_. IrohSendStream"])
      (auto simp: iroh_send_write_def split: iroh_send_stream.split)
  moreover have "(\<lambda>s. written (case_iroh_send_stream id s)) = case_iroh_send_stream written"
    by (rule ext) (simp split: iroh_send_stream.split)
  ultimately show ?thesis by simp
qed

lemma iroh_recv_lawful:
  assumes "lawful_reader R incoming"
  shows "lawful_reader (iroh_recv_read R) (case_iroh_recv_stream incoming)"
proof -
  have "lawful_reader (iroh_recv_read R) (\<lambda>s. incoming (case_iroh_recv_stream id s))"
    by (rule lawful_reader_via [OF assms, where put = "\<lambda>_. IrohRecvStream"])
      (auto simp: iroh_recv_read_def split: iroh_recv_stream.split)
  moreover have "(\<lambda>s. incoming (case_iroh_recv_stream id s)) = case_iroh_recv_stream incoming"
    by (rule ext) (simp split: iroh_recv_stream.split)
  ultimately show ?thesis by simp
qed

text \<open>
  Over a QUIC stream pair that keeps the contracts, the bidirectional stream writes through the
  send half and reads through the receive half: it keeps the contract of a writer with the bytes
  of the send half, that of a reader with the bytes of the receive half, and neither direction
  disturbs the other.
\<close>

theorem iroh_bidi_lawful:
  assumes "recording_writer W written" and "lawful_reader R incoming"
  shows "recording_writer (iroh_bidi_write (iroh_send_write W)) (\<lambda>b. case ib_send b of IrohSendStream s \<Rightarrow> written s) \<and>
    lawful_reader (iroh_bidi_read (iroh_recv_read R)) (\<lambda>b. case ib_recv b of IrohRecvStream r \<Rightarrow> incoming r) \<and>
    ib_recv (snd (poll_write (iroh_bidi_write (iroh_send_write W)) buf b)) = ib_recv b \<and>
    ib_send (snd (snd (poll_read (iroh_bidi_read (iroh_recv_read R)) buf b))) = ib_send b"
proof (intro conjI)
  show "recording_writer (iroh_bidi_write (iroh_send_write W)) (\<lambda>b. case ib_send b of IrohSendStream s \<Rightarrow> written s)"
    by (rule recording_writer_via [OF iroh_send_lawful [OF assms(1)], where put = "\<lambda>b s. b\<lparr>ib_send := s\<rparr>"])
      (simp_all add: iroh_bidi_write_def)
  show "lawful_reader (iroh_bidi_read (iroh_recv_read R)) (\<lambda>b. case ib_recv b of IrohRecvStream r \<Rightarrow> incoming r)"
    by (rule lawful_reader_via [OF iroh_recv_lawful [OF assms(2)], where put = "\<lambda>b r. b\<lparr>ib_recv := r\<rparr>"])
      (simp_all add: iroh_bidi_read_def)
qed (simp_all add: iroh_bidi_write_def iroh_bidi_read_def)

theorem iroh_bidi_lawful_witness:
  "recording_writer (iroh_bidi_write (iroh_send_write (pipe_write 1 :: (pipe, nat) async_write)))
     (\<lambda>b :: (pipe, pipe) iroh_bidi_stream. case ib_send b of IrohSendStream s \<Rightarrow> pipe_out s)"
  using iroh_bidi_lawful [OF pipe_w.recording_writer_axioms pipe_r.lawful_reader_axioms] by blast

lemma context_io_Inr_iff [simp]: "context_io m f w = (Inr a, w') \<longleftrightarrow> f w = (Inr a, w')"
  by (auto simp: io_run split: prod.splits)

text \<open>
  A connect that succeeds has made exactly one new QUIC connection, to the peer whose public key
  is the host of the URI, with the first configured ALPN protocol or \<open>n0/navar\<close>; scheme, port and
  everything else in the URI do not matter.
\<close>

theorem iroh_connect_target:
  assumes "iroh_connect N self u w = (Inr conn, w')"
  shows "\<exists>host remote. uri_host u = Some host \<and> in_endpoint_id N host = Inr remote \<and>
    in_connect N (it_endpoint self) remote (if it_alpns self = [] then default_alpn else hd (it_alpns self)) w =
      (Inr (ic_inner conn), w') \<and>
    iroh_connect N self (u\<lparr>uri_scheme_str := s, uri_port_u16 := p, uri_authority := a\<rparr>) w = (Inr conn, w')"
proof -
  have alpn: "iroh_alpn self = (if it_alpns self = [] then default_alpn else hd (it_alpns self))"
    by (simp add: iroh_alpn_def split: list.split)
  have "iroh_connect N self (u\<lparr>uri_scheme_str := s, uri_port_u16 := p, uri_authority := a\<rparr>) = iroh_connect N self u"
    by (simp add: iroh_connect_def)
  with assms show ?thesis
    by (auto simp: iroh_connect_def io_ok Let_def alpn [symmetric])
qed

definition sample_iroh :: "(unit, string, nat, pipe, pipe, nat, nat) iroh_net" where
  "sample_iroh =
     \<lparr>in_endpoint_id = (\<lambda>h. if h = [] then Inl 1 else Inr h), in_connect = (\<lambda>e i a w. (Inr w, w + 1)),
      in_open_bi = (\<lambda>q w. (Inr (undefined, undefined), w)), in_open_uni = (\<lambda>q w. (Inr undefined, w)),
      in_accept_bi = (\<lambda>q w. (Inl 2, w)), in_accept_uni = (\<lambda>q w. (Inl 2, w)), in_alpn = (\<lambda>q. h2_name),
      in_send_id = (\<lambda>s. \<lparr>qs_initiated_by_client = True, qs_unidirectional = False, qs_index = 0\<rparr>),
      in_recv_id = (\<lambda>s. \<lparr>qs_initiated_by_client = True, qs_unidirectional = False, qs_index = 0\<rparr>)\<rparr>"

theorem iroh_connect_target_witness:
  "\<exists>conn w'. iroh_connect sample_iroh (iroh_transport_new () []) (sample_uri None) 3 = (Inr conn, w') \<and>
     in_connect sample_iroh () ''h'' default_alpn 3 = (Inr (ic_inner conn), w')"
proof -
  have run: "iroh_connect sample_iroh (iroh_transport_new () []) (sample_uri None) 3 = (Inr \<lparr>ic_inner = 3\<rparr>, 4)"
    by (simp add: iroh_connect_def sample_iroh_def iroh_transport_new_def sample_uri_def io_run)
  from iroh_connect_target [OF run] run show ?thesis
    by (auto simp: sample_iroh_def iroh_transport_new_def sample_uri_def)
qed

text \<open>
  Hyper over Iroh with automatic selection always speaks HTTP/1.1: the streams report no ALPN
  protocol, even when the connection has negotiated \<open>h2\<close> and says so.
\<close>

theorem hyper_over_iroh_is_http1:
  assumes "ha_protocol app = Auto"
    and "hyper_handshake L prepare (iroh_conn N) (iroh_stream N) app conn hw = (Inr (sender, driver), hw')"
  shows "\<exists>a c. sender = H1 a \<and> driver = H1Driver c"
proof -
  obtain io w1 where opened: "open_bidirectional (iroh_conn N) conn (hw_world hw) = (Inr io, w1)"
    using assms(2) by (auto simp: hyper_handshake_def io_ok hyper_on_world_def split: prod.splits)
  from assms show ?thesis unfolding hyper_handshake_opened [OF opened]
    by (auto simp: iroh_stream_def iroh_bidi_alpn_def split: prod.splits sum.splits)
qed

theorem hyper_over_iroh_is_http1_witness:
  "conn_alpn_protocol (iroh_conn sample_iroh) \<lparr>ic_inner = 0\<rparr> = Some h2_name \<and>
   (\<exists>sender driver hw'. hyper_handshake sample_hyper (\<lambda>_. 7) (iroh_conn sample_iroh) (iroh_stream sample_iroh)
      hyper_app_new \<lparr>ic_inner = 0\<rparr> \<lparr>hw_mutex = (\<lambda>_. 0), hw_next = 0, hw_world = 0\<rparr> = (Inr (sender, driver), hw') \<and>
      (\<exists>a. sender = H1 a))"
proof -
  let ?hw = "\<lparr>hw_mutex = (\<lambda>_. 0), hw_next = 0, hw_world = 0\<rparr> :: (nat, nat) hyper_world"
  have run: "hyper_handshake sample_hyper (\<lambda>_. 7) (iroh_conn sample_iroh) (iroh_stream sample_iroh)
      hyper_app_new \<lparr>ic_inner = 0\<rparr> ?hw =
      (Inr (H1 0, H1Driver 7), \<lparr>hw_mutex = (\<lambda>_. 0)(0 := 7), hw_next = 1, hw_world = 0\<rparr>)"
    by (simp add: hyper_handshake_def io_run iroh_conn_def iroh_open_bidirectional_def sample_iroh_def sample_hyper_def iroh_stream_def iroh_bidi_alpn_def
        hyper_app_new_def default_protocol_def Let_def)
  have "ha_protocol hyper_app_new = Auto" by (simp add: hyper_app_new_def default_protocol_def)
  from hyper_over_iroh_is_http1 [OF this run] run show ?thesis
    by (simp add: iroh_conn_def iroh_conn_alpn_def sample_iroh_def)
qed

text \<open>
  The identifier of a stream is its index alone, so streams of different direction or opened by
  different sides share identifiers within one connection.
\<close>

lemma iroh_ids_not_unique:
  "in_send_id N s \<noteq> in_send_id N t \<Longrightarrow> qs_index (in_send_id N s) = qs_index (in_send_id N t) \<Longrightarrow>
   iroh_send_stream_id N (IrohSendStream s) = iroh_send_stream_id N (IrohSendStream t)"
  by simp

end
