(* ===== verification/FetchMain.thy ===== *)
theory FetchMain
  imports Fetch HyperRequests H3Client Iroh
begin

text \<open>
  \<open>main\<close> of the command-line client (\<open>examples/navar_fetch.rs\<close>): by the scheme of the URI it puts a client
  together from a transport, a protocol and the Tokio runtime, and runs the request on it.  Here all
  components of the repository meet.

  The process acts on a \<open>hyper_world\<close>: the mutexes that Hyper sessions allocate, and the world.
  The endpoint of \<open>iroh\<close> (\<open>bind\<close>, \<open>online\<close>), the provider of \<open>rustls\<close>
  (\<open>install\<close>), printing and spawning are parameters, like the crates that the components call; of the
  arguments, only the result of \<open>clap\<close> appears.  A \<open>main\<close> that returns has a result, one that calls
  \<open>std::process::exit\<close> has a code.
\<close>

record ('hb, 'u, 'e1, 'ext, 'be, 'b1, 'b2, 'nb, 'd, 'nd, 'e, 'coll, 'w, 'x) fetch_kit =
  fi_builder :: "('hb, 'u, 'e1, 'ext, 'x) http_builder"
  fi_as_uri :: "uri \<Rightarrow> 'u"
  fi_kit :: "('be, 'b1, 'b2, 'nb, 'd, 'nd, 'e, 'x) body_kit"
  fi_empty :: 'be
  fi_collect :: "'nb \<Rightarrow> ('w, 'x, 'coll) io"
  fi_to_bytes :: "'coll \<Rightarrow> byte list"
  fi_show_parts :: "'ext res_parts \<Rightarrow> uchar list"
  fi_println :: "uchar list \<Rightarrow> 'w \<Rightarrow> 'w"
  fi_eprintln :: "string \<Rightarrow> 'w \<Rightarrow> 'w"
  fi_spawn :: "('w \<Rightarrow> 'w) \<Rightarrow> 'w \<Rightarrow> 'w"

datatype 'x fetch_exit = Returned "'x error + unit" | Exited int

definition at_world :: "('w \<Rightarrow> 'w) \<Rightarrow> ('sess, 'w) base_state \<Rightarrow> ('sess, 'w) base_state" where
  "at_world f s = s\<lparr>world := f (world s)\<rparr>"

definition at_hyper :: "('w \<Rightarrow> 'w) \<Rightarrow> ('s1, 'w) hyper_world \<Rightarrow> ('s1, 'w) hyper_world" where
  "at_hyper f hw = hw\<lparr>hw_world := f (hw_world hw)\<rparr>"

section \<open>The arms\<close>

text \<open>\<open>Client::new\<close> and \<open>exec_request\<close>, the end of every arm; \<open>collect\<close> and \<open>println\<close> act on the world of the stack.\<close>

definition fetch_run where
  "fetch_run F collect println transport app runtime sess norm args w =
     (case client_new transport app runtime sess norm w of
        (client, state) \<Rightarrow>
          (case exec_request (fi_builder F) (fi_as_uri F) (fi_kit F) (fi_empty F) (\<lambda>body. on_world (collect body))
                  (fi_to_bytes F) (fi_show_parts F) (\<lambda>line. at_world (println line)) client args state of
             (r, state) \<Rightarrow> (r, world state)))"

definition hyper_transport ::
  "('conn, 'w, 'x) transport_plugin \<Rightarrow> ('conn, ('s1, 'w) hyper_world, 'x) transport_plugin" where
  "hyper_transport T = \<lparr>connect = (\<lambda>u. hyper_on_world (connect T u))\<rparr>"

definition fetch_over_hyper where
  "fetch_over_hyper F L prepare K S kit norm T args =
     (let transport = hyper_transport T;
          app = hyper_application L prepare K S hyper_app_new;
          runtime = tokio_spawn (\<lambda>driver. at_hyper (fi_spawn F (hyper_driver_run L (fi_eprintln F) driver)))
      in fetch_run F (\<lambda>body. hyper_on_world (fi_collect F body)) (\<lambda>line. at_hyper (fi_println F line))
           transport app runtime (hyper_session L kit) norm args)"

definition create_iroh_endpoint :: "('w \<Rightarrow> ('x + 'ep) \<times> 'w) \<Rightarrow> ('ep \<Rightarrow> 'w \<Rightarrow> 'w) \<Rightarrow> ('w, 'x, 'ep) io" where
  "create_iroh_endpoint bind online =
     io_bind (foreign_io bind) (\<lambda>endpoint w. let w = online endpoint w in (Inr endpoint, w))"

definition fetch_tokio_hyper where
  "fetch_tokio_hyper F N tls into_split tls_split L prepare kit norm args =
     (let transport = tokio_transport_plugin N tls (tokio_transport_default N tls)
      in fetch_over_hyper F L prepare (tokio_conn N tls) (tokio_stream N into_split tls_split) kit norm transport args)"

definition fetch_iroh_hyper where
  "fetch_iroh_hyper F N bind online L prepare kit norm args =
     io_bind (hyper_on_world (create_iroh_endpoint bind online)) (\<lambda>endpoint.
       let transport = iroh_transport_plugin N (iroh_transport_new endpoint [ascii ''iroh+http''])
       in fetch_over_hyper F L prepare (iroh_conn N) (iroh_stream N) kit norm transport args)"

definition fetch_iroh_h3 where
  "fetch_iroh_h3 F N bind online C never B into next_frame norm args =
     io_bind (create_iroh_endpoint bind online) (\<lambda>endpoint.
       let transport = iroh_transport_plugin N (iroh_transport_new endpoint [ascii ''iroh+h3'']);
           app = h3_app C;
           runtime = tokio_spawn (\<lambda>driver. fi_spawn F (h3_driver_fut C (fi_eprintln F) driver))
       in fetch_run F (fi_collect F) (fi_println F) transport app runtime
            (h3_session_trait never C B into next_frame) norm args)"

section \<open>main\<close>

definition fetch_main where
  "fetch_main F install tcp tls into_split tls_split quic bind online L prepare_tcp prepare_quic kit hyper_norm
      C never B into next_frame h3_norm args hw =
     (let hw = at_hyper install hw;
          scheme = (case uri_scheme_str (cf_uri args) of Some s \<Rightarrow> s | None \<Rightarrow> ''http'') in
      if scheme = ''http'' \<or> scheme = ''https'' then
        map_prod Returned id
          (fetch_tokio_hyper F tcp tls into_split tls_split L prepare_tcp kit hyper_norm args hw)
      else if scheme = ''iroh+http'' then
        map_prod Returned id (fetch_iroh_hyper F quic bind online L prepare_quic kit hyper_norm args hw)
      else if scheme = ''iroh+h3'' then
        map_prod Returned id
          (hyper_on_world (fetch_iroh_h3 F quic bind online C never B into next_frame h3_norm args) hw)
      else
        (let hw = at_hyper (fi_eprintln F (''Unsupported scheme: '' @ scheme)) hw in (Exited 1, hw)))"

section \<open>A run, step by step\<close>

text \<open>What a run prints once it has a response.\<close>

definition print_response where
  "print_response F collect println resp =
     (\<lambda>w. io_bind (collect (rs_body resp)) (\<lambda>body w. (Inr (), println (from_utf8_lossy (fi_to_bytes F body)) w))
        (println (fi_show_parts F (rs_parts resp)) w))"

text \<open>The parts of the request that the arguments describe, or the error of the builder.\<close>

definition fetch_parts where
  "fetch_parts F args = hb_parts (fi_builder F) (brb_inner (fetch_request (fi_builder F) (fi_as_uri F) () args))"

lemma add_header_steps:
  "brb_inner b = brb_inner c \<Longrightarrow> brb_inner (add_header H b h) = brb_inner (add_header H c h)"
  "brb_client (add_header H b h) = brb_client b"
  by (simp_all add: add_header_def builder_header_def split: prod.split option.split)

lemma add_headers_client: "brb_client (foldl (add_header H) b hs) = brb_client b"
  by (induction hs arbitrary: b) (simp_all add: add_header_steps)

lemma add_headers_inner:
  "brb_inner b = brb_inner c \<Longrightarrow> brb_inner (foldl (add_header H) b hs) = brb_inner (foldl (add_header H) c hs)"
  by (induction hs arbitrary: b c) (simp, simp, metis add_header_steps(1))

lemma fetch_request_client:
  "brb_inner (fetch_request H as_uri client args) = brb_inner (fetch_request H as_uri () args)"
  "brb_client (fetch_request H as_uri client args) = client"
  unfolding fetch_request_def by (rule add_headers_inner)
    (simp_all add: add_headers_client client_request_def builder_new_def)

lemma send_fetch_request:
  "builder_send (fi_builder F) (fi_kit F) (fi_empty F) (fetch_request (fi_builder F) (fi_as_uri F) client args) st =
     (case fetch_parts F args of
        Inl e \<Rightarrow> (Inl (Foreign e), st)
      | Inr p \<Rightarrow> client_send (fi_kit F) client \<lparr>rq_parts = p, rq_body = fi_empty F\<rparr> st)"
  unfolding builder_send_def builder_build_def fetch_parts_def fetch_request_client(1) [of _ _ client]
  by (simp add: fetch_request_client(2) bound_request_send_def split: sum.split)

text \<open>A call on the state of the client that runs as a call on the world.\<close>

definition runs_as :: "(('sess, 'w) base_state, 'x, 'a) io \<Rightarrow> ('w, 'x, 'a) io \<Rightarrow> bool" where
  "runs_as m n \<longleftrightarrow> (\<forall>s. map_prod id world (m s) = n (world s))"

lemma runs_as_on_world: "runs_as (on_world m) m"
  by (simp add: runs_as_def on_world_def split: prod.split)

lemma runs_as_return: "runs_as (io_return a) (io_return a)"
  by (simp add: runs_as_def io_return_def)

lemma runs_as_bind:
  assumes "runs_as m n" and "\<And>a. runs_as (f a) (g a)"
  shows "runs_as (io_bind m f) (io_bind n g)"
  unfolding runs_as_def
proof
  fix s
  have "map_prod id world (m s) = n (world s)" using assms(1) by (simp add: runs_as_def)
  then show "map_prod id world (io_bind m f s) = io_bind n g (world s)"
    using assms(2) by (auto simp: io_bind_def runs_as_def split: prod.splits sum.splits)
qed

lemma runs_as_after:
  "runs_as m n \<Longrightarrow> (\<And>s. world (f s) = g (world s)) \<Longrightarrow> runs_as (\<lambda>s. m (f s)) (\<lambda>w. n (g w))"
  by (simp add: runs_as_def)

lemma io_bind_at: "m s = m' s \<Longrightarrow> io_bind m f s = io_bind m' f s"
  by (simp add: io_bind_def)

lemma io_bind_spawn:
  "io_bind (\<lambda>w. send_request sess req session (spawn runtime driver w)) f =
   (\<lambda>w. io_bind (send_request sess req session) f (spawn runtime driver w))"
  by (rule ext) (simp add: io_bind_def)

text \<open>A request on a new client: the pool is empty, so the session is set up.\<close>

definition first_answer where
  "first_answer transport app runtime sess req a =
     io_bind (on_world (connect transport (request_uri req))) (\<lambda>conn.
     io_bind (on_world (handshake app conn)) (\<lambda>(session, driver) s.
       on_world (send_request sess req session)
         (s\<lparr>world := spawn runtime driver (world s), pool := (pool s)(a \<mapsto> session)\<rparr>)))"

lemma handle_first:
  assumes "uri_authority (request_uri req) = Some a" and "pool s a = None"
  shows "base_handle (fst (base_service_new transport app runtime sess norm w)) req s =
     io_bind (first_answer transport app runtime sess req a) (\<lambda>(resp, _). io_return (norm resp)) s"
proof -
  let ?B = "fst (base_service_new transport app runtime sess norm w)"
  let ?steps = "io_bind (on_world (connect transport (request_uri req))) (\<lambda>conn.
     io_bind (on_world (handshake app conn)) (\<lambda>(session, driver) s.
       (Inr session, s\<lparr>world := spawn runtime driver (world s), pool := (pool s)(a \<mapsto> session)\<rparr>)))"
  have set_up: "get_session ?B (request_uri req) a s = ?steps s"
    using assms(2) by (simp add: get_session_def base_service_new_def Let_def)
  have "base_handle ?B req s = io_bind (get_session ?B (request_uri req) a) (\<lambda>session.
      io_bind (on_world (send_request sess req session)) (\<lambda>(resp, _). io_return (norm resp))) s"
    using assms(1) by (simp add: base_handle_def base_service_new_def)
  also have "\<dots> = io_bind ?steps (\<lambda>session.
      io_bind (on_world (send_request sess req session)) (\<lambda>(resp, _). io_return (norm resp))) s"
    by (rule io_bind_at) (rule set_up)
  also have "\<dots> = io_bind (first_answer transport app runtime sess req a) (\<lambda>(resp, _). io_return (norm resp)) s"
    unfolding first_answer_def io_bind_assoc
    by (intro arg_cong [where f = "\<lambda>f. io_bind _ f s"] ext) (auto simp: io_bind_def split: prod.split sum.split)
  finally show ?thesis .
qed

lemma first_answer_runs:
  "runs_as (first_answer transport app runtime sess req a)
     (io_bind (connect transport (request_uri req)) (\<lambda>conn.
      io_bind (handshake app conn) (\<lambda>(session, driver) w. send_request sess req session (spawn runtime driver w))))"
  unfolding first_answer_def
  by (intro runs_as_bind runs_as_on_world) (auto intro!: runs_as_after runs_as_on_world)

text \<open>\<open>exec_request\<close> on a state with a pool prints as on the world.\<close>

definition print_in_state where
  "print_in_state F collect println = (\<lambda>resp s.
     io_bind (on_world (collect (rs_body resp))) (\<lambda>body s.
       (Inr (), at_world (println (from_utf8_lossy (fi_to_bytes F body))) s))
       (at_world (println (fi_show_parts F (rs_parts resp))) s))"

lemma print_in_state_runs: "runs_as (print_in_state F collect println resp) (print_response F collect println resp)"
  by (simp add: runs_as_def print_response_def print_in_state_def io_run at_world_def split: prod.split sum.split)

lemma fetch_run_steps:
  fixes sess :: "('sess, _, _, 'w, 'x) session"
  assumes "fetch_parts F args = Inr p" and "uri_authority (rp_uri p) = Some a"
  shows "fetch_run F collect println transport app runtime sess norm args =
    io_bind (connect transport (rp_uri p)) (\<lambda>conn.
    io_bind (handshake app conn) (\<lambda>(session, driver) w.
      io_bind (send_request sess \<lparr>rq_parts = p, rq_body = normalize_body (fi_kit F) (fi_empty F)\<rparr> session)
        (\<lambda>(resp, _). print_response F collect println (norm resp)) (spawn runtime driver w)))"
    (is "_ = ?run")
proof
  fix w
  define client where "client = fst (client_new transport app runtime sess norm w)"
  define s where "s = \<lparr>pool = (Map.empty :: string \<rightharpoonup> 'sess), world = w\<rparr>"
  define req where "req = \<lparr>rq_parts = p, rq_body = normalize_body (fi_kit F) (fi_empty F)\<rparr>"
  define send where "send = builder_send (fi_builder F) (fi_kit F) (fi_empty F)
      (fetch_request (fi_builder F) (fi_as_uri F) client args)"
  define answer where "answer = first_answer transport app runtime sess req a"
  let ?print = "print_in_state F collect println"
  have new: "client_new transport app runtime sess norm w = (client, s)"
    by (simp add: client_def s_def client_new_def base_service_new_def)
  have "fetch_run F collect println transport app runtime sess norm args w = map_prod id world (io_bind send ?print s)"
    by (simp add: fetch_run_def new exec_request_def send_def print_in_state_def Let_def map_prod_def)
  also have "send s = io_bind answer (\<lambda>(resp, _). io_return (norm resp)) s"
    unfolding send_def client_def answer_def send_fetch_request assms(1) sum.case client_send_base
    using assms(2) by (simp add: handle_first [of _ a] s_def req_def)
  then have "io_bind send ?print s = io_bind (io_bind answer (\<lambda>(resp, _). io_return (norm resp))) ?print s"
    by (rule io_bind_at)
  also have "io_bind (io_bind answer (\<lambda>(resp, _). io_return (norm resp))) ?print =
      io_bind answer (\<lambda>(resp, _). ?print (norm resp))"
    by (simp add: io_bind_assoc case_prod_beta')
  also have "map_prod id world (io_bind answer (\<lambda>(resp, _). ?print (norm resp)) s) = ?run w"
  proof -
    have "runs_as (io_bind answer (\<lambda>(resp, _). ?print (norm resp)))
        (io_bind (io_bind (connect transport (request_uri req)) (\<lambda>conn.
            io_bind (handshake app conn) (\<lambda>(session, driver) w. send_request sess req session (spawn runtime driver w))))
          (\<lambda>(resp, _). print_response F collect println (norm resp)))"
      unfolding answer_def by (intro runs_as_bind first_answer_runs) (auto intro: print_in_state_runs)
    then show ?thesis
      by (simp add: runs_as_def io_bind_assoc case_prod_beta' s_def req_def io_bind_spawn)
  qed
  finally show "fetch_run F collect println transport app runtime sess norm args w = ?run w" .
qed

lemma fetch_run_rejected:
  assumes "fetch_parts F args = Inl e"
  shows "fetch_run F collect println transport app runtime sess norm args w = (Inl (Foreign e), w)"
  using assms
  by (simp add: fetch_run_def exec_request_def client_new_def base_service_new_def send_fetch_request io_run)

section \<open>HTTP/3\<close>

lemma empty_body_run:
  assumes "body_kit_laws kit poll poll1 poll2 poll_nb" and "frame_future poll_nb next_frame"
    and "poll_n poll 1 empty_body = [Ready None]"
  shows "body_run next_frame (normalize_body kit empty_body) [] None"
  using frame_future.awaited [OF assms(2), of "[]" "normalize_body kit empty_body" None]
    body_kit_laws.poll_n_normalize [OF assms(1), of 1 empty_body] assms(3)
  by (simp add: ended_def)

lemma io_bind_lift: "io_bind (lift_result (Inr a)) f = f a"
  by (rule ext) (simp add: io_bind_def lift_result_def)

lemma fetch_h3_steps:
  assumes "body_kit_laws (fi_kit F) poll poll1 poll2 poll_nb" and "frame_future poll_nb next_frame"
    and "poll_n poll 1 (fi_empty F) = [Ready None]"
    and "fetch_parts F args = Inr p" and "rp_uri p = cf_uri args" and "uri_authority (cf_uri args) = Some a"
    and "uri_host (cf_uri args) = Some key" and "in_endpoint_id quic key = Inr peer"
  shows "fetch_iroh_h3 F quic bind online C never B into next_frame norm args =
     io_bind (create_iroh_endpoint bind online) (\<lambda>endpoint.
     io_bind (context_io ''Failed to connect to iroh endpoint'' (in_connect quic endpoint peer (ascii ''iroh+h3''))) (\<lambda>connection.
     io_bind (h3_handshake C \<lparr>ic_inner = connection\<rparr>) (\<lambda>(session, driver) w.
       io_bind (h3_exchange C p [] None session)
         (\<lambda>(resp, _). print_response F (fi_collect F) (fi_println F) (norm resp))
         (fi_spawn F (h3_driver_fut C (fi_eprintln F) driver) w))))"
proof -
  have auth: "uri_authority (rp_uri p) = Some a" using assms(5,6) by simp
  have "send_request (h3_session_trait never C B into next_frame)
      \<lparr>rq_parts = p, rq_body = normalize_body (fi_kit F) (fi_empty F)\<rparr> session = h3_exchange C p [] None session" for session
    by (rule ext, subst h3_send_exchange [where fs = "[]" and fin = None])
      (simp_all add: empty_body_run [OF assms(1-3)])
  moreover have "connect (iroh_transport_plugin quic (iroh_transport_new endpoint [alpn])) (cf_uri args) =
      io_bind (context_io ''Failed to connect to iroh endpoint'' (in_connect quic endpoint peer alpn)) (\<lambda>connection.
        io_return \<lparr>ic_inner = connection\<rparr>)" for endpoint alpn
    by (rule ext) (simp add: iroh_transport_plugin_def iroh_transport_new_def iroh_connect_def assms(7,8)
        iroh_alpn_def io_bind_lift Let_def)
  ultimately show ?thesis
    by (simp add: fetch_iroh_h3_def fetch_run_steps [OF assms(4) auth] assms(5) io_bind_assoc h3_app_def
        tokio_spawn_def case_prod_beta')
qed

text \<open>
  C17: A run of the command-line client on an \<open>iroh+h3\<close> URI, from the arguments to the output: an endpoint is bound and
  brought online, the peer whose key is the host of the URI is connected to with the ALPN protocol
  \<open>iroh+h3\<close>, an HTTP/3 session is made and its driver spawned, the request that the arguments describe is
  sent without data, and the parts of the response and then its collected body, lossily decoded, are
  printed.  The first step that fails ends the run with its error, and the steps after it do not happen.
\<close>

theorem fetch_main_h3:
  assumes "body_kit_laws (fi_kit F) poll poll1 poll2 poll_nb" and "frame_future poll_nb next_frame"
    and "poll_n poll 1 (fi_empty F) = [Ready None]"
    and "fetch_parts F args = Inr p" and "rp_uri p = cf_uri args" and "uri_authority (cf_uri args) = Some a"
    and "uri_host (cf_uri args) = Some key" and "in_endpoint_id quic key = Inr peer"
    and "uri_scheme_str (cf_uri args) = Some ''iroh+h3''"
  shows "fetch_main F install tcp tls into_split tls_split quic bind online L prepare_tcp prepare_quic kit hyper_norm
      C never B into next_frame h3_norm args hw =
    map_prod Returned (\<lambda>w. hw\<lparr>hw_world := w\<rparr>)
     (io_bind (create_iroh_endpoint bind online) (\<lambda>endpoint.
      io_bind (context_io ''Failed to connect to iroh endpoint'' (in_connect quic endpoint peer (ascii ''iroh+h3''))) (\<lambda>connection.
      io_bind (h3_handshake C \<lparr>ic_inner = connection\<rparr>) (\<lambda>(session, driver) w.
        io_bind (h3_exchange C p [] None session)
          (\<lambda>(resp, _). print_response F (fi_collect F) (fi_println F) (h3_norm resp))
          (fi_spawn F (h3_driver_fut C (fi_eprintln F) driver) w)))) (install (hw_world hw)))"
  unfolding fetch_main_def assms(9) Let_def fetch_h3_steps [OF assms(1-8)]
  by (simp add: hyper_on_world_def at_hyper_def split: prod.split)

section \<open>HTTP/1.1 and HTTP/2\<close>

lemma hyper_answer:
  "io_bind (send_request (hyper_session L kit) request session) (\<lambda>x. print_response F collect println (norm (fst x))) =
   io_bind (hyper_exchange L \<lparr>rq_parts = rq_parts request, rq_body = normalize_body kit (rq_body request)\<rparr> session)
     (\<lambda>resp. print_response F collect println (norm resp))"
  by (rule ext) (auto simp: hyper_session_def hyper_send_exchange io_bind_def split: prod.splits sum.splits)

lemma fetch_hyper_steps:
  assumes "fetch_parts F args = Inr p" and "rp_uri p = cf_uri args" and "uri_authority (cf_uri args) = Some a"
  shows "fetch_over_hyper F L prepare K S kit norm T args =
    io_bind (hyper_on_world (connect T (cf_uri args))) (\<lambda>conn.
    io_bind (hyper_handshake L prepare K S hyper_app_new conn) (\<lambda>(session, driver) hw.
      io_bind (hyper_exchange L \<lparr>rq_parts = p, rq_body = normalize_body kit (normalize_body (fi_kit F) (fi_empty F))\<rparr> session)
        (\<lambda>resp. print_response F (\<lambda>body. hyper_on_world (fi_collect F body)) (\<lambda>line. at_hyper (fi_println F line)) (norm resp))
        (at_hyper (fi_spawn F (hyper_driver_run L (fi_eprintln F) driver)) hw)))"
proof -
  have auth: "uri_authority (rp_uri p) = Some a" using assms(2,3) by simp
  show ?thesis
    by (simp add: fetch_over_hyper_def fetch_run_steps [OF assms(1) auth] assms(2) hyper_transport_def
        hyper_application_def tokio_spawn_def hyper_answer Let_def case_prod_beta')
qed

text \<open>
  C18: A run on an \<open>http\<close> or \<open>https\<close> URI, or on one without a scheme: the host is looked up, hyper
  is connected over TCP, or TLS, with the protocol that was negotiated, the driver is spawned, the
  request that the arguments describe is sent on the session with an empty body, and the parts of the
  response and then its body are printed; the first step that fails ends the run with its error.
\<close>

theorem fetch_main_http:
  assumes "fetch_parts F args = Inr p" and "rp_uri p = cf_uri args" and "uri_authority (cf_uri args) = Some a"
    and "uri_scheme_str (cf_uri args) \<in> {None, Some ''http'', Some ''https''}"
  shows "fetch_main F install tcp tls into_split tls_split quic bind online L prepare_tcp prepare_quic kit hyper_norm
      C never B into next_frame h3_norm args hw =
    map_prod Returned id
     (io_bind (hyper_on_world (tokio_connect tcp tls (tokio_transport_default tcp tls) (cf_uri args))) (\<lambda>conn.
      io_bind (hyper_handshake L prepare_tcp (tokio_conn tcp tls) (tokio_stream tcp into_split tls_split) hyper_app_new conn)
        (\<lambda>(session, driver) hw.
          io_bind (hyper_exchange L \<lparr>rq_parts = p, rq_body = normalize_body kit (normalize_body (fi_kit F) (fi_empty F))\<rparr> session)
            (\<lambda>resp. print_response F (\<lambda>body. hyper_on_world (fi_collect F body)) (\<lambda>line. at_hyper (fi_println F line))
              (hyper_norm resp))
            (at_hyper (fi_spawn F (hyper_driver_run L (fi_eprintln F) driver)) hw))) (at_hyper install hw))"
  using assms(4)
  by (auto simp: fetch_main_def fetch_tokio_hyper_def fetch_hyper_steps [OF assms(1-3)] tokio_transport_plugin_def)

section \<open>Rejected arguments\<close>

text \<open>
  Any other scheme is reported on standard error and the process exits with code 1; nothing is bound,
  connected or printed.
\<close>

theorem fetch_main_rejects:
  assumes "uri_scheme_str (cf_uri args) = Some scheme"
    and "scheme \<notin> {''http'', ''https'', ''iroh+http'', ''iroh+h3''}"
  shows "fetch_main F install tcp tls into_split tls_split quic bind online L prepare_tcp prepare_quic kit hyper_norm
      C never B into next_frame h3_norm args hw =
    (Exited 1, at_hyper (fi_eprintln F (''Unsupported scheme: '' @ scheme)) (at_hyper install hw))"
  using assms by (simp add: fetch_main_def)

text \<open>A method, URI or header that the builder refuses ends the run before anything is connected.\<close>

theorem fetch_main_invalid_request:
  assumes "fetch_parts F args = Inl e" and "uri_scheme_str (cf_uri args) \<in> {None, Some ''http'', Some ''https''}"
  shows "fetch_main F install tcp tls into_split tls_split quic bind online L prepare_tcp prepare_quic kit hyper_norm
      C never B into next_frame h3_norm args hw = (Returned (Inl (Foreign e)), at_hyper install hw)"
  using assms
  by (auto simp: fetch_main_def fetch_tokio_hyper_def fetch_over_hyper_def fetch_run_rejected Let_def)

section \<open>Runs\<close>

text \<open>A world that lists what has happened in it.\<close>

definition sample_quic :: "(unit, string, string, pipe, pipe, string list, nat) iroh_net" where
  "sample_quic =
     \<lparr>in_endpoint_id = (\<lambda>key. if key = [] then Inl 1 else Inr key),
      in_connect = (\<lambda>endpoint peer alpn w. (Inr peer, w @ [''connect '' @ peer @ '' as '' @ map (\<lambda>b. char_of (unat b)) alpn])),
      in_open_bi = (\<lambda>q w. (Inl 2, w)), in_open_uni = (\<lambda>q w. (Inl 2, w)),
      in_accept_bi = (\<lambda>q w. (Inl 2, w)), in_accept_uni = (\<lambda>q w. (Inl 2, w)), in_alpn = (\<lambda>q. ascii ''iroh+h3''),
      in_send_id = (\<lambda>s. \<lparr>qs_initiated_by_client = True, qs_unidirectional = False, qs_index = 0\<rparr>),
      in_recv_id = (\<lambda>s. \<lparr>qs_initiated_by_client = True, qs_unidirectional = False, qs_index = 0\<rparr>)\<rparr>"

definition sample_h3_crate ::
  "(unit, (string iroh_connection, unit, unit, unit) h3_connection, unit, nat, byte list, byte list, string list, nat) h3_client" where
  "sample_h3_crate =
     \<lparr>h3c_new = (\<lambda>c w. (Inr ((), 0), w)),
      h3c_send_request = (\<lambda>req sender w. (Inr [], sender, w @ [''request''])),
      h3c_send_data = (\<lambda>bs s w. (Inr (), s @ bs, w)), h3c_finish = (\<lambda>s w. (Inr (), s, w @ [''finish''])),
      h3c_recv_response = (\<lambda>s w.
        (Inr \<lparr>rs_parts = \<lparr>sp_status = 200, sp_headers = [], sp_extensions = ()\<rparr>, rs_body = ()\<rparr>, s, w)),
      h3c_poll_recv_data = (\<lambda>s w. (Ready (Inr None), s, w)),
      h3c_wait_idle = (\<lambda>d w. (0, w)), h3c_is_no_error = (\<lambda>e. e = 0), h3c_display = (\<lambda>e. [])\<rparr>"

definition sample_hyper_crate ::
  "(nat, nat, nat, nat, nat, (unit, (byte list list, nat error) outcome list) request, (unit, unit) response,
    string list, nat) hyper_lib" where
  "sample_hyper_crate =
     \<lparr>hy_h1_handshake = (\<lambda>io w. (Inr (io, io), w)), hy_h2_handshake = (\<lambda>io w. (Inr (io, io), w)),
      hy_h1_ready = (\<lambda>s w. (Inr (), s, w)),
      hy_h1_send = (\<lambda>r s w. (Inr \<lparr>rs_parts = \<lparr>sp_status = 200, sp_headers = [], sp_extensions = ()\<rparr>, rs_body = ()\<rparr>, s, w @ [''request''])),
      hy_h2_ready = (\<lambda>s w. (Inr (), s, w)),
      hy_h2_send = (\<lambda>r s w. (Inr \<lparr>rs_parts = \<lparr>sp_status = 200, sp_headers = [], sp_extensions = ()\<rparr>, rs_body = ()\<rparr>, s, w @ [''h2 request''])),
      hy_h1_run = (\<lambda>c w. (Inr (), w)), hy_h2_run = (\<lambda>c w. (Inr (), w)), hy_debug = (\<lambda>e. [])\<rparr>"

definition sample_fetch where
  "sample_fetch u =
     \<lparr>fi_builder = parts_builder () (1 :: nat) u, fi_as_uri = Inr, fi_kit = script_kit (\<lambda>d :: byte list. d) (Foreign :: nat \<Rightarrow> nat error),
      fi_empty = [], fi_collect = (\<lambda>body (w :: string list). (Inr (data_bytes body), w)), fi_to_bytes = (\<lambda>bytes. bytes),
      fi_show_parts = (\<lambda>parts. str ''parts''), fi_println = (\<lambda>line w. w @ [map char_of line]),
      fi_eprintln = (\<lambda>line w. w @ [line]), fi_spawn = (\<lambda>fut w. w @ [''spawn''])\<rparr>"

definition sample_args :: "string \<Rightarrow> config" where
  "sample_args scheme = \<lparr>cf_uri = sample_uri (Some scheme), cf_method = ''GET'', cf_headers = []\<rparr>"

definition sample_hello :: "(unit, (byte list, nat error) outcome list) response" where
  "sample_hello = \<lparr>rs_parts = \<lparr>sp_status = 200, sp_headers = [], sp_extensions = ()\<rparr>,
     rs_body = [Ready (Some (Inr (DataFrame [104, 105])))]\<rparr>"

definition sample_process :: "(nat, string list) hyper_world" where
  "sample_process = \<lparr>hw_mutex = (\<lambda>_. 0), hw_next = 0, hw_world = []\<rparr>"

definition sample_main where
  "sample_main args = fetch_main (sample_fetch (cf_uri args)) (\<lambda>w. w) sample_net True (\<lambda>_. ((), ())) (\<lambda>_. ((), ()))
     sample_quic (\<lambda>w. (Inr (), w)) (\<lambda>_ w. w @ [''online'']) sample_hyper_crate (\<lambda>_. 7) (\<lambda>_. 7) (script_kit (\<lambda>d. [d]) (\<lambda>e. e))
     (\<lambda>_. sample_hello) sample_h3_crate (\<lambda>req self. io_error (Msg [])) bytes_buf (\<lambda>e. e) script_next (\<lambda>_. sample_hello)
     args sample_process"

lemmas sample_main_defs = sample_quic_def sample_h3_crate_def sample_fetch_def sample_args_def sample_hello_def
  sample_process_def sample_uri_def fetch_parts_def fetch_request_def client_request_def builder_new_def parts_builder_def

lemma sample_fetch_parts:
  "fetch_parts (sample_fetch (cf_uri (sample_args scheme))) (sample_args scheme) =
     Inr \<lparr>rp_method = ''GET'', rp_uri = cf_uri (sample_args scheme), rp_version = 11, rp_headers = [], rp_extensions = ()\<rparr>"
  by (simp add: sample_fetch_def sample_args_def fetch_parts_def fetch_request_def client_request_def builder_new_def
      parts_builder_def)

theorem fetch_main_h3_witness:
  "sample_main (sample_args ''iroh+h3'') = (Returned (Inr ()), sample_process\<lparr>hw_world :=
     [''online'', ''connect h as iroh+h3'', ''spawn'', ''request'', ''finish'', ''parts'', ''hi'']\<rparr>)"
proof -
  let ?F = "sample_fetch (cf_uri (sample_args ''iroh+h3''))"
  have kit: "body_kit_laws (fi_kit ?F) poll_script poll_script poll_script poll_script"
    by (simp add: sample_fetch_def script.body_kit_laws_axioms)
  have "poll_n poll_script 1 (fi_empty ?F) = [Ready None]" by (simp add: sample_fetch_def)
  note run = fetch_main_h3 [OF kit script_frames.frame_future_axioms this sample_fetch_parts, where a = "''h''" and key = "''h''" and peer = "''h''"]
  show ?thesis
    unfolding sample_main_def
    by (subst run) (simp_all add: sample_main_defs create_iroh_endpoint_def io_run h3_handshake_def h3_exchange_def
        body_end_def print_response_def ascii_def decode_one.simps str_def char_of_def bit_Suc_0_iff)
qed

text \<open>Over TCP in plain text, and with a scheme that is not known.\<close>

theorem fetch_main_http_witness:
  "sample_main (sample_args ''http'') = (Returned (Inr ()), sample_process\<lparr>hw_mutex := (\<lambda>_. 0)(0 := 7), hw_next := 1, hw_world :=
     [''h:80'', ''spawn'', ''request'', ''parts'', ''hi'']\<rparr>)"
proof -
  let ?u = "cf_uri (sample_args ''http'')" and ?conn = "\<lparr>tc_addr = ''h:80'', tc_tls_config = None\<rparr>"
  let ?hw = "\<lparr>hw_mutex = (\<lambda>_. 0), hw_next = 0, hw_world = [''h:80'']\<rparr> :: (nat, string list) hyper_world"
  let ?S = "tokio_stream sample_net (\<lambda>_. ((), ())) (\<lambda>_. ((), ()))"
  have u: "rp_uri \<lparr>rp_method = ''GET'', rp_uri = ?u, rp_version = 11, rp_headers = [], rp_extensions = ()\<rparr> = ?u"
      "uri_authority ?u = Some ''h''" "uri_scheme_str ?u \<in> {None, Some ''http'', Some ''https''}"
    by (simp_all add: sample_args_def sample_uri_def)
  have connect: "tokio_connect sample_net True (tokio_transport_default sample_net True) ?u [] = (Inr ?conn, [''h:80''])"
    by (simp add: tokio_connect_def sample_net_def sample_args_def sample_uri_def io_run tokio_tls_config_def
        tokio_addr_str_def tokio_port_def decimal.simps char_of_def bit_Suc_0_iff)
  have opened: "open_bidirectional (tokio_conn sample_net True) ?conn (hw_world ?hw) = (Inr (PlainIo 1), [''h:80''])"
    by (simp add: tokio_conn_def tokio_open_bidirectional_def sample_net_def io_run)
  have shake: "hyper_handshake sample_hyper_crate (\<lambda>_. 7) (tokio_conn sample_net True) ?S hyper_app_new ?conn ?hw =
      (Inr (H1 0, H1Driver 7), \<lparr>hw_mutex = (\<lambda>_. 0)(0 := 7), hw_next = Suc 0, hw_world = [''h:80'']\<rparr>)"
    unfolding hyper_handshake_opened [OF opened]
    by (simp add: tokio_stream_def sample_hyper_crate_def hyper_app_new_def default_protocol_def)
  show ?thesis
    unfolding sample_main_def fetch_main_http [OF sample_fetch_parts u]
    by (simp add: at_hyper_def sample_process_def io_run connect shake)
      (simp add: sample_fetch_def hyper_exchange_def sample_hyper_crate_def print_response_def sample_hello_def
        io_run at_hyper_def decode_one.simps str_def char_of_def bit_Suc_0_iff)
qed

theorem fetch_main_rejects_witness:
  "sample_main (sample_args ''ftp'') = (Exited 1, sample_process\<lparr>hw_world := [''Unsupported scheme: ftp'']\<rparr>)"
  unfolding sample_main_def
  by (subst fetch_main_rejects [where scheme = "''ftp''"]) (simp_all add: sample_main_defs at_hyper_def)

end
