(* ===== verification/Mocks.thy ===== *)
theory Mocks
  imports Client H3Streams
begin

text \<open>
  The mock plugins (\<open>navar-mocks/src/lib.rs\<close>), on which the contracts and the whole stack of the
  client are exercised.

  A future of a mock connection is either done or waits for ever; \<open>Empty::new()\<close> and the adapters
  of bodies are parameters as everywhere.
\<close>

section \<open>The stream\<close>

datatype mock_stream = MockStream

definition mock_stream_id :: "mock_stream \<Rightarrow> 64 word" where
  "mock_stream_id s = 0"

definition mock_read :: "(mock_stream, 'e) async_read" where
  "mock_read = \<lparr>poll_read = (\<lambda>buf s. (Ready (Inr 0), buf, s))\<rparr>"

definition mock_write :: "(mock_stream, 'e) async_write" where
  "mock_write = \<lparr>poll_write = (\<lambda>buf s. (Ready (Inr (length buf)), s)),
     poll_flush = (\<lambda>s. (Ready (Inr ()), s)), poll_close = (\<lambda>s. (Ready (Inr ()), s))\<rparr>"

definition mock_bidi :: "(mock_stream, mock_stream, mock_stream) bidi_stream" where
  "mock_bidi = \<lparr>stream_id = mock_stream_id, bidi_split = (\<lambda>s. (s, s)),
     bidi_alpn_protocol = default_alpn_protocol\<rparr>"

interpretation mock_w: nonzero_writer mock_write
  by unfold_locales (auto simp: mock_write_def)

interpretation mock_r: lawful_reader mock_read "\<lambda>_. []"
  by unfold_locales (auto simp: mock_read_def)

section \<open>Connection, transport, application and runtime\<close>

datatype mock_connection = MockConnection
datatype mock_future = MockReady | MockPending

fun mock_poll :: "mock_future \<Rightarrow> 'w \<Rightarrow> ('x error + mock_stream) poll \<times> mock_future \<times> 'w" where
  "mock_poll MockReady w = (Ready (Inr MockStream), MockReady, w)"
| "mock_poll MockPending w = (Pending, MockPending, w)"

definition mock_futures ::
  "(mock_connection, mock_stream, mock_stream, mock_stream, mock_future, mock_future, mock_future, 'w, 'x) conn_futures" where
  "mock_futures =
     \<lparr>cf_open_bidirectional = (\<lambda>c. MockReady), cf_open_unidirectional = (\<lambda>c. MockReady),
      cf_accept_bidirectional = (\<lambda>c. MockPending), cf_accept_unidirectional = (\<lambda>c. MockPending),
      cf_poll_bidi = mock_poll, cf_poll_send = mock_poll, cf_poll_recv = mock_poll\<rparr>"

definition mock_transport :: "(mock_connection, 'w, 'x) transport_plugin" where
  "mock_transport = \<lparr>connect = (\<lambda>u. io_return MockConnection)\<rparr>"

datatype mock_session = MockSession

text \<open>\<open>Response::new\<close>: status 200 and no headers.\<close>

definition mock_response :: "'ext \<Rightarrow> 'nb \<Rightarrow> ('ext, 'nb) response" where
  "mock_response no_ext empty_body =
     \<lparr>rs_parts = \<lparr>sp_status = 200, sp_headers = [], sp_extensions = no_ext\<rparr>, rs_body = empty_body\<rparr>"

definition mock_send_request ::
  "'ext \<Rightarrow> 'nb \<Rightarrow> (mock_session, ('ext, 'b) request, ('ext, 'nb) response, 'w, 'x) session" where
  "mock_send_request no_ext empty_body =
     \<lparr>send_request = (\<lambda>req self. io_return (mock_response no_ext empty_body, self))\<rparr>"

definition mock_app :: "(mock_connection, mock_session, unit, 'w, 'x) application_plugin" where
  "mock_app = \<lparr>handshake = (\<lambda>conn. io_return (MockSession, ()))\<rparr>"

definition mock_runtime :: "('driver, 'w) async_runtime" where
  "mock_runtime = \<lparr>spawn = (\<lambda>future w. w)\<rparr>"

section \<open>The client over the mocks\<close>

text \<open>
  A client over the mock plugins answers every request that can be built and has an authority
  with the normalized empty 200 response, whatever was pooled before; afterwards the authority has a pooled
  session and the other authorities have what they had.
\<close>

theorem mock_client_answers:
  assumes "hb_parts H (hb_uri H u (hb_method H meth (hb_builder H))) = Inr p"
    and "uri_authority (rp_uri p) = Some a"
  shows "builder_send H kit empty_body
      (client_request H (fst (client_new mock_transport mock_app mock_runtime
         (mock_send_request no_ext nb) norm w)) meth u) \<lparr>pool = P, world = v\<rparr> =
    (Inr (norm (mock_response no_ext nb)), \<lparr>pool = P(a \<mapsto> MockSession), world = v\<rparr>)"
proof -
  have "P a = None \<or> P a = Some MockSession \<and> P(a \<mapsto> MockSession) = P"
  proof (cases "P a")
    case (Some x)
    then have "P a = Some MockSession" by (cases x) simp
    then show ?thesis by (simp add: fun_upd_idem)
  qed simp
  then show ?thesis using assms
    by (auto simp: builder_send_def builder_build_def client_request_def builder_new_def
        bound_request_send_def client_send_base Let_def base_service_new_def base_handle_def get_session_def
        io_run mock_transport_def mock_app_def mock_runtime_def
        mock_send_request_def split: option.split)
qed

definition mock_uri :: uri where
  "mock_uri = \<lparr>uri_scheme_str = Some ''http'', uri_authority = Some ''h'', uri_host = Some ''h'', uri_port_u16 = None\<rparr>"

definition mock_http ::
  "(nat + unit req_parts, nat + uri, unit \<Rightarrow> unit, unit, nat) http_builder" where
  "mock_http = parts_builder () 1 mock_uri"

theorem mock_client_answers_witness:
  "builder_send mock_http (script_kit (\<lambda>d :: byte list. d) Foreign) []
      (client_request mock_http (fst (client_new mock_transport mock_app mock_runtime
         (mock_send_request () []) (\<lambda>r. r) (0 :: nat))) ''GET'' (Inr mock_uri))
      \<lparr>pool = Map.empty, world = 0\<rparr> =
    (Inr (mock_response () []), \<lparr>pool = [''h'' \<mapsto> MockSession], world = 0\<rparr>)"
  by (rule mock_client_answers, simp add: mock_http_def parts_builder_def, simp add: mock_uri_def)

text \<open>
  A mock connection never gets an inbound stream: however often the HTTP/3 adapter is polled to
  accept one over it, the accept stays pending, the future is kept and nothing else changes.
\<close>

theorem mock_accept_never_ready:
  "op_drive (poll_accept_bidi no_error mock_futures) n (h3_connection_new MockConnection) w = None"
proof -
  have "fut_drive mock_poll n MockPending w = None"
    by (induction n) simp_all
  then show ?thesis unfolding accept_bidi.drive accept_bidi.in_flight_def
    by (simp add: h3_connection_new_def mock_futures_def)
qed

end
