(* ===== verification/ResponseTests.thy ===== *)
theory ResponseTests
  imports Responses
begin

text \<open>
  The tests of the response helpers (\<open>src/tests/response_helpers.rs\<close>), run on the model: their bodies
  are \<open>make_body\<close>, and each test is a theorem that states its assertions.  Of \<open>http_body_util\<close>, a
  \<open>StreamBody\<close> over a list plays it back, and \<open>collect\<close> appends the data up to the end or the first error.
\<close>

definition make_body :: "byte list list \<Rightarrow> (byte list, nat error) outcome list" where
  "make_body chunks =
     normalize_body (script_kit (\<lambda>data. data) (\<lambda>e. e)) (map (\<lambda>chunk. Ready (Some (Inr (DataFrame chunk)))) chunks)"

definition test_response :: "byte list list \<Rightarrow> (unit, (byte list, nat error) outcome list) response" where
  "test_response chunks = \<lparr>rs_parts = sample_parts, rs_body = make_body chunks\<rparr>"

fun collect_script :: "(byte list, 'x error) outcome list \<Rightarrow> 'x error + byte list" where
  "collect_script [] = Inr []"
| "collect_script (Ready None # os) = Inr []"
| "collect_script (Ready (Some (Inl e)) # os) = Inl e"
| "collect_script (Ready (Some (Inr (DataFrame d))) # os) = map_sum id ((@) d) (collect_script os)"
| "collect_script (_ # os) = collect_script os"

text \<open>A literal of the tests; the line feeds in it are written apart.\<close>

definition lit :: "string \<Rightarrow> byte list" where
  "lit s = str_bytes (str s)"

lemma lit_append: "lit (s @ t) = lit s @ lit t"
  by (simp add: lit_def str_def)

lemma make_body_frames: "make_body chunks = map (\<lambda>chunk. Ready (Some (Inr (DataFrame chunk)))) chunks"
  by (simp add: make_body_def normalize_body_def script_kit_def comp_def)

lemma make_body_polls: "poll_n poll_script (Suc (length chunks)) (make_body chunks) = make_body chunks @ [Ready None]"
  by (induction chunks) (simp_all add: make_body_frames)

lemma make_body_ends: "Ready None \<notin> set (make_body chunks)"
  by (auto simp: make_body_frames)

lemma make_body_data: "data_bytes (make_body chunks) = concat chunks"
  by (induction chunks) (simp_all add: make_body_frames)

lemma collect_make_body: "collect_script (make_body chunks) = Inr (concat chunks)"
  by (induction chunks) (simp_all add: make_body_frames)

section \<open>Whole bodies\<close>

abbreviation collect_test :: "(byte list, nat error) outcome list \<Rightarrow> (nat, nat, byte list) io" where
  "collect_test body \<equiv> lift_result (collect_script body)"

lemma test_bytes:
  "response_bytes collect_test id (test_response chunks) w = (Inr (concat chunks), w)"
  by (simp add: response_bytes_def test_response_def collect_make_body io_run)

theorem test_response_bytes:
  "response_bytes collect_test id (test_response [lit ''hello '', lit ''world'']) w = (Inr (lit ''hello world''), w)"
  by (simp add: test_bytes lit_append [symmetric])

theorem test_response_text:
  "response_text collect_test id show_error (test_response [lit ''hello '', lit ''world'']) w =
     (Inr (str ''hello world''), w)"
proof -
  have "from_utf8 (lit ''hello world'') = Some (str ''hello world'')"
    unfolding lit_def by (rule from_utf8_str_bytes) (simp add: str_def scalar_def)
  then show ?thesis
    by (simp add: response_text_def io_bind_def test_response_bytes io_return_def)
qed

theorem test_response_text_invalid_utf8:
  "response_text collect_test id show_error (test_response [[255, 255]]) w =
     (Inl (Msg (''UTF-8 conversion failed: '' @ show_error [255, 255])), w)"
  by (simp add: response_text_def io_run test_bytes decode_one.simps)

theorem test_response_json:
  "response_json collect_test id from_slice (test_response [json_data]) w = (foreign (from_slice json_data), w)"
  by (simp add: response_json_def io_run test_bytes)

section \<open>Streams\<close>

text \<open>\<open>into_data_stream\<close> polls the frames and passes over trailers.\<close>

fun data_script :: "(byte list, 'e) outcome list \<Rightarrow> ('e + byte list) option poll \<times> (byte list, 'e) outcome list" where
  "data_script [] = (Ready None, [])"
| "data_script (Ready (Some (Inr (DataFrame d))) # os) = (Ready (Some (Inr d)), os)"
| "data_script (Ready (Some (Inr (TrailersFrame h))) # os) = data_script os"
| "data_script (Ready (Some (Inl e)) # os) = (Ready (Some (Inl e)), os)"
| "data_script (Ready None # os) = (Ready None, os)"
| "data_script (Pending # os) = (Pending, os)"

lemma test_chunk:
  "bytes_stream_poll bytes_buf data_script (make_body (chunk # chunks)) = (Ready (Some (Inr chunk)), make_body chunks)"
  by (simp add: bytes_stream_poll_def make_body_frames buf_laws.to_bytes_content [OF contiguous.buf_laws_axioms])

theorem test_bytes_stream:
  "\<exists>s1 s2. bytes_stream_poll bytes_buf data_script
       (response_bytes_stream id (test_response [lit ''chunk1'', lit ''chunk2''])) = (Ready (Some (Inr (lit ''chunk1''))), s1) \<and>
     bytes_stream_poll bytes_buf data_script s1 = (Ready (Some (Inr (lit ''chunk2''))), s2) \<and>
     fst (bytes_stream_poll bytes_buf data_script s2) = Ready None"
  by (intro exI [of _ "make_body [lit ''chunk2'']"] exI [of _ "make_body []"])
    (simp add: response_bytes_stream_def test_response_def test_chunk, simp add: bytes_stream_poll_def make_body_frames)

text \<open>
  Any list of chunks, read to its end: the items are those of the whole text, whatever its cuts and
  however the ring buffer lies.
\<close>

abbreviation map_frame_test :: "(byte list frame \<Rightarrow> byte list frame) \<Rightarrow> (byte list, 'e) outcome list \<Rightarrow> (byte list, 'e) outcome list" where
  "map_frame_test f \<equiv> map (map_outcome f (\<lambda>e. e))"

lemma map_frame_make_body: "map_frame_test (map_data (to_bytes bytes_buf)) (make_body chunks) = make_body chunks"
  by (simp add: make_body_frames buf_laws.to_bytes_content [OF contiguous.buf_laws_axioms])

lemma test_sse:
  "\<exists>n log l s'. sse_polls poll_script lay n (response_sse_stream bytes_buf map_frame_test (\<lambda>b. b) (test_response chunks)) =
       Some (log @ [l], s') \<and> log_result l = Ready None \<and> list_all (\<lambda>l. log_result l \<noteq> Ready None) log \<and>
     items log = map Inr (sse_reference (concat chunks))"
proof -
  have "poll_n poll_script (Suc (length (make_body chunks))) (map_frame_test (map_data (to_bytes bytes_buf)) (make_body chunks)) =
      make_body chunks @ [Ready None]"
    using make_body_polls [of chunks] by (simp add: map_frame_make_body) (simp add: make_body_frames)
  from sse_to_end [where lay = lay and box_new = "\<lambda>b. b" and map_frame = map_frame_test and B = bytes_buf
      and body = "make_body chunks", OF this make_body_ends] show ?thesis
    by (simp add: response_sse_stream_def test_response_def make_body_data) blast
qed

lemma test_ndjson:
  "\<exists>n log l s'. ndjson_polls from_slice poll_script lay n
       (response_ndjson_stream bytes_buf map_frame_test (\<lambda>b. b) (test_response chunks)) = Some (log @ [l], s') \<and>
     log_result l = Ready None \<and> list_all (\<lambda>l. log_result l \<noteq> Ready None) log \<and>
     items log = ndjson_reference from_slice (concat chunks)"
proof -
  have "poll_n poll_script (Suc (length (make_body chunks))) (map_frame_test (map_data (to_bytes bytes_buf)) (make_body chunks)) =
      make_body chunks @ [Ready None]"
    using make_body_polls [of chunks] by (simp add: map_frame_make_body) (simp add: make_body_frames)
  from ndjson_to_end [where lay = lay and from_slice = from_slice and box_new = "\<lambda>b. b"
      and map_frame = map_frame_test and B = bytes_buf and body = "make_body chunks", OF this make_body_ends] show ?thesis
    by (simp add: response_ndjson_stream_def test_response_def make_body_data) blast
qed


text \<open>The lines of the SSE test, in three chunks cut inside a field.\<close>

definition sse_chunks :: "byte list list" where
  "sse_chunks = [lit ''data: first event'' @ [10, 10], lit ''event: update'' @ [10] @ lit ''data: se'',
     lit ''cond event'' @ [10] @ lit ''id: 123'' @ [10, 10]]"

definition first_fields :: "(string \<times> uchar list) list" where
  "first_fields = [(''data'', str ''first event'')]"

definition second_fields :: "(string \<times> uchar list) list" where
  "second_fields = [(''event'', str ''update''), (''data'', str ''second event''), (''id'', str ''123'')]"

lemma sse_chunks_text:
  "concat sse_chunks = wire_lines (map (case_prod format_field) first_fields @ [[]]) @
     wire_lines (map (case_prod format_field) second_fields @ [[]]) @ []"
proof -
  have "lit ''data: second event'' = lit ''data: se'' @ lit ''cond event''" by (simp add: lit_append [symmetric])
  then show ?thesis
    by (simp add: sse_chunks_def first_fields_def second_fields_def wire_lines_def format_field_def lit_def str_def)
qed

lemma fields_ok:
  "list_all (\<lambda>(name, v). plain_name name \<and> clean v) first_fields"
  "list_all (\<lambda>(name, v). plain_name name \<and> clean v) second_fields"
  by (simp_all add: first_fields_def second_fields_def plain_names clean_def str_def scalar_def is_whitespace_def)

theorem test_sse_stream:
  "\<exists>n log l s'. sse_polls poll_script lay n (response_sse_stream bytes_buf map_frame_test (\<lambda>b. b)
      (test_response sse_chunks)) = Some (log @ [l], s') \<and> log_result l = Ready None \<and>
    items log = [Inr \<lparr>ev_id = None, ev_event = None, ev_data = str ''first event''\<rparr>,
      Inr \<lparr>ev_id = Some (str ''123''), ev_event = Some (str ''update''), ev_data = str ''second event''\<rparr>]"
proof -
  have "str ''first event'' \<noteq> []" "str ''second event'' \<noteq> []" by (simp_all add: str_def)
  then have "sse_reference (concat sse_chunks) =
    [\<lparr>ev_id = None, ev_event = None, ev_data = str ''first event''\<rparr>,
     \<lparr>ev_id = Some (str ''123''), ev_event = Some (str ''update''), ev_data = str ''second event''\<rparr>]"
    unfolding sse_chunks_text sse_fields_read [OF fields_ok(1)] sse_fields_read [OF fields_ok(2)]
    by (simp add: fields_named_def first_fields_def second_fields_def)
  with test_sse [of lay sse_chunks] show ?thesis by auto
qed

text \<open>The JSON values of the last test are what the deserializer makes of its two lines.\<close>

definition id_key :: "byte list" where
  "id_key = lit ''{'' @ [34] @ lit ''id'' @ [34] @ lit '':''"

theorem test_ndjson_stream:
  "\<exists>n log l s'. ndjson_polls from_slice poll_script lay n (response_ndjson_stream bytes_buf map_frame_test (\<lambda>b. b)
      (test_response [id_key @ lit '' 1}'' @ [newline] @ id_key, lit '' 2}'' @ [newline]])) = Some (log @ [l], s') \<and>
    log_result l = Ready None \<and>
    items log = [foreign (from_slice (id_key @ lit '' 1}'')), foreign (from_slice (id_key @ lit '' 2}''))]"
proof -
  have lits: "newline \<notin> set (lit ''{'')" "newline \<notin> set (lit ''id'')" "newline \<notin> set (lit '':'')"
      "newline \<notin> set (lit '' 1}'')" "newline \<notin> set (lit '' 2}'')"
    unfolding lit_def by (rule str_bytes_newline; simp add: str_def scalar_def)+
  then have "newline \<notin> set (id_key @ lit '' 1}'')" "newline \<notin> set (id_key @ lit '' 2}'')" by (simp_all add: id_key_def)
  from complete_lines_terminated [OF this(1)] complete_lines_terminated [OF this(2), of "[]"]
  have "complete_lines (concat [id_key @ lit '' 1}'' @ [newline] @ id_key, lit '' 2}'' @ [newline]]) =
      [id_key @ lit '' 1}'', id_key @ lit '' 2}'']"
    by (simp add: complete_lines_def [of "[]"])
  then show ?thesis
    using test_ndjson [of from_slice lay "[id_key @ lit '' 1}'' @ [newline] @ id_key, lit '' 2}'' @ [newline]]"]
    by (simp add: ndjson_reference_def) blast
qed

end
