(* ===== verification/RequestTests.thy ===== *)
theory RequestTests
  imports H3Client Mocks ResponseTests
begin

text \<open>
  The tests of the request builders (\<open>src/tests/request_helpers.rs\<close>), run on the model: the client is
  made of the mock plugins, \<open>inspect_body\<close> is the loop of the tests that reads a body, and each test is
  a theorem that states its assertions.  A body is played back from the list of its outcomes.
\<close>

text \<open>\<open>None\<close> is a body that never ends, \<open>Some None\<close> the panic of \<open>frame.unwrap()\<close>.\<close>

partial_function (option) inspect_frames ::
  "'d buf \<Rightarrow> ('b \<Rightarrow> ('e + 'd frame) option \<times> 'b) \<Rightarrow> 'b \<Rightarrow> byte list \<Rightarrow> byte list option option" where
  "inspect_frames B next_frame body bytes =
     (case next_frame body of
        (None, body') \<Rightarrow> Some (Some bytes)
      | (Some (Inl e), body') \<Rightarrow> Some None
      | (Some (Inr frame), body') \<Rightarrow>
          (case into_data frame of
             Inr data \<Rightarrow> inspect_frames B next_frame body' (bytes @ buf_chunk B data)
           | Inl _ \<Rightarrow> inspect_frames B next_frame body' bytes))"

definition inspect_body ::
  "'d buf \<Rightarrow> ('b \<Rightarrow> ('e + 'd frame) option \<times> 'b) \<Rightarrow> ('ext, 'b, 'client) bound_request \<Rightarrow> byte list option option" where
  "inspect_body B next_frame req = inspect_frames B next_frame (br_into_body req) []"

lemma inspect_frames_run:
  "body_run next_frame body fs fin \<Longrightarrow> inspect_frames B next_frame body bytes =
     Some (case fin of None \<Rightarrow> Some (bytes @ concat (map (buf_chunk B) (frame_datas fs))) | Some e \<Rightarrow> None)"
proof (induction arbitrary: bytes rule: body_run.induct)
  case (run_frame body fr body' fs fin)
  then show ?case by (cases fr) (simp_all add: inspect_frames.simps [of B next_frame body] split: option.split)
qed (simp_all add: inspect_frames.simps [of B next_frame])

section \<open>The tests\<close>

abbreviation test_http :: "(nat + (string \<times> nat) list req_parts, nat + uri,
    (string \<times> nat) list \<Rightarrow> (string \<times> nat) list, (string \<times> nat) list, nat) http_builder" where
  "test_http \<equiv> parts_builder [] 0 (sample_uri (Some ''http''))"

definition test_client where
  "test_client = fst (client_new mock_transport mock_app mock_runtime (mock_send_request [] ()) (\<lambda>r. r) (0 :: nat)
     :: (((string \<times> nat) list, unit) request, ((string \<times> nat) list, unit) response,
         (mock_session, nat) base_state, nat) client \<times> (mock_session, nat) base_state)"

abbreviation test_request where
  "test_request meth \<equiv> client_request test_http test_client meth (Inr (sample_uri (Some ''http'')))"

lemma test_request_parts:
  "hb_parts test_http (brb_inner (test_request meth)) = Inr \<lparr>rp_method = meth, rp_uri = sample_uri (Some ''http''),
     rp_version = 11, rp_headers = [], rp_extensions = []\<rparr>"
  by (simp add: parts_builder_def client_request_def builder_new_def)

theorem test_header_and_extension:
  "\<exists>req. builder_build test_http [] (builder_extension test_http (\<lambda>ext. (''MyExt'', 42) # ext)
      (builder_header test_http (str ''X-Test'') (ascii ''Value'') (test_request ''GET''))) = Inr req \<and>
    map_of (br_headers req) ''x-test'' = Some (ascii ''Value'') \<and>
    map_of (br_extensions req) ''MyExt'' = Some 42"
proof -
  have "lower (str ''X-Test'') = ''x-test''" by (simp add: lower_def str_def char_of_def bit_Suc_0_iff)
  moreover have "header_value (ascii ''Value'')" by (simp add: header_value_def ascii_def)
  moreover have "str ''X-Test'' \<noteq> []" "list_all (\<lambda>c. 33 \<le> c \<and> c < 127) (str ''X-Test'')" by (simp_all add: str_def)
  ultimately show ?thesis
    by (simp add: builder_build_def builder_extension_def builder_header_def client_request_def builder_new_def
        parts_builder_def br_headers_def br_extensions_def)
qed

text \<open>\<open>Full::new\<close> of some bytes, one frame unless there are none.\<close>

lemma sample_full_run: "body_run script_next (sample_full bs) (if bs = [] then [] else [DataFrame bs]) None"
  by (simp add: sample_full_def) (auto intro!: run_end run_frame)

lemma inspect_full:
  "inspect_body bytes_buf script_next \<lparr>br_request = \<lparr>rq_parts = p, rq_body = sample_full bs\<rparr>, br_client = c\<rparr> = Some (Some bs)"
  by (simp add: inspect_body_def br_into_body_def inspect_frames_run [OF sample_full_run] bytes_buf_def)

lemmas test_builders = builder_text_def builder_bytes_def builder_json_def
  builder_laws.body_with_content_type [OF parts_builder.builder_laws_axioms] content_types_valid
  test_request_parts with_content_type_def br_headers_def content_type_def Let_def

theorem test_text_body:
  "\<exists>req. builder_text test_http sample_full (str ''hello world'') (test_request ''POST'') = Inr req \<and>
    map_of (br_headers req) content_type = Some (ascii ''text/plain; charset=utf-8'') \<and>
    inspect_body bytes_buf script_next req = Some (Some (lit ''hello world''))"
  by (simp add: test_builders inspect_full lit_def)

theorem test_bytes_body:
  "\<exists>req. builder_bytes test_http sample_full [0, 1, 2] (test_request ''POST'') = Inr req \<and>
    map_of (br_headers req) content_type = Some (ascii ''application/octet-stream'') \<and>
    inspect_body bytes_buf script_next req = Some (Some [0, 1, 2])"
  by (simp add: test_builders inspect_full)

theorem test_json_body:
  assumes "to_vec data = Inr bs" and "from_slice bs = Inr data"
  shows "\<exists>req body_bytes. builder_json test_http sample_full to_vec data (test_request ''POST'') = Inr req \<and>
    map_of (br_headers req) content_type = Some (ascii ''application/json'') \<and>
    inspect_body bytes_buf script_next req = Some (Some body_bytes) \<and> from_slice body_bytes = Inr data"
  using assms by (simp add: test_builders inspect_full)


text \<open>The items of the stream, each on a line of its own.\<close>

theorem test_ndjson_body:
  assumes "to_vec item1 = Inr l1" and "to_vec item2 = Inr l2" and "newline \<notin> set l1" and "newline \<notin> set l2"
  shows "\<exists>req body_bytes. builder_ndjson test_http map (map (\<lambda>r. Ready (Some r))) to_vec [item1, item2] (test_request ''POST'') =
      Inr req \<and>
    map_of (br_headers req) content_type = Some (ascii ''application/x-ndjson'') \<and>
    inspect_body bytes_buf script_next req = Some (Some body_bytes) \<and> complete_lines body_bytes = [l1, l2]"
proof -
  have "body_run script_next [Ready (Some (Inr (DataFrame (l1 @ [newline])))), Ready (Some (Inr (DataFrame (l2 @ [newline]))))]
      [DataFrame (l1 @ [newline]), DataFrame (l2 @ [newline])] None"
    by (auto intro!: run_end run_frame)
  note read = inspect_frames_run [OF this]
  have "complete_lines (l1 @ newline # l2 @ [newline]) = [l1, l2]"
    using complete_lines_terminated [OF assms(3)] complete_lines_terminated [OF assms(4), of "[]"]
    by (simp add: complete_lines_def [of "[]"])
  then show ?thesis
    using assms(1,2)
    by (simp add: builder_ndjson_def test_builders ndjson_frame_def inspect_body_def br_into_body_def read bytes_buf_def)
qed

end
