(* ===== verification/Spec2Isabelle.thy ===== *)
theory Spec2Isabelle
  imports SseStandard SseTypes PoolExecution HyperClient H3Streams H3Responses FetchMain RequestTests
begin

text \<open>
  Verification of \<open>navar\<close>, an asynchronous HTTP client library in Rust.

  \<^bold>\<open>The program.\<close>  A \<open>Client\<close> (\<open>src/lib.rs\<close>) sends requests through a \<open>Pipeline\<close> of middleware
  (\<open>src/service.rs\<close>) to a \<open>BaseService\<close> (\<open>src/base_service.rs\<close>), which keeps one session per
  authority in a sharded concurrent map.  A session comes from two plugins: a transport
  (\<open>src/transport.rs\<close>), implemented over TCP and TLS by \<open>navar-tokio\<close> and over QUIC by
  \<open>navar-iroh\<close>, and an application protocol (\<open>src/application.rs\<close>), implemented for HTTP/1.1 and
  HTTP/2 by \<open>navar-hyper\<close> and for HTTP/3 by \<open>navar-h3\<close>, whose \<open>adapter.rs\<close> turns a transport into
  what the \<open>h3\<close> crate expects.  \<open>src/bound_request.rs\<close> and \<open>src/bound_request/json.rs\<close> build
  requests; \<open>src/response_helpers.rs\<close> reads responses, with two streaming parsers
  \<open>response_helpers/sse.rs\<close> and \<open>response_helpers/ndjson.rs\<close>.  \<open>navar-mocks\<close> has mock plugins and
  \<open>examples/navar_fetch.rs\<close> is a command-line client over all of it.

  \<^bold>\<open>Conventions.\<close>  A \<open>Result\<close> is a sum with the error on the left; \<open>anyhow\<close> errors are the type
  \<open>error\<close> of \<open>Prelude\<close>, which keeps the messages of the code and the errors of other crates as values
  of a type variable \<open>'x\<close>.  An asynchronous call that is awaited is a function from a world to a
  result and the world after it (\<open>io\<close>); a poll function returns \<open>poll\<close>, and \<open>Pending\<close> is one of its
  values.  A trait is a record of its methods, an implementation is a value of the record.  Crates
  outside the repository (\<open>h3\<close>, \<open>hyper\<close>, \<open>iroh\<close>, \<open>rustls\<close>, \<open>tokio\<close>, \<open>serde_json\<close>, \<open>http\<close>,
  \<open>http_body_util\<close>) are records of functions that the definitions take as arguments; what the code relies
  on is an assumption of the theorem or the law of a locale, and every locale has an interpretation.
  Bytes are 8-bit words, ports and HTTP/3 stream ids are words of their width, text that the code encodes,
  decodes or cuts is a list of code points (\<open>uchar list\<close>), with UTF-8 encoding and lossy and strict decoding
  written out in \<open>Utf8\<close>; names, hosts and messages are strings.
  An index out of range is \<open>None\<close>, where Rust panics.

  \<^bold>\<open>Theories.\<close>
  \<^item> \<open>Prelude\<close>, \<open>Utf8\<close>, \<open>ByteBuf\<close>, \<open>Streams\<close>: results, strings, the \<open>Buf\<close> trait with its laws
    (locale \<open>buf_laws\<close>), and \<open>AsyncRead\<close>/\<open>AsyncWrite\<close> with theirs (\<open>nonzero_writer\<close>,
    \<open>recording_writer\<close>, \<open>lawful_reader\<close>).
  \<^item> \<open>HttpBody\<close> and \<open>LineFraming\<close>: polling of bodies, and the two contracts of the line parsers.
    \<open>line_scanner\<close> says that a scan handles each complete line once, \<open>framed_stream\<close> that a stream
    polled any number of times yields what the bytes of the body determine, in whatever pieces they come;
    \<open>body_stream\<close> relates its polls to those of the body, up to the end of both.
  \<^item> \<open>Sse\<close>, \<open>SseFormat\<close>, \<open>SseTypes\<close>, \<open>SseStandard\<close>: \<open>SseStream\<close> (\<open>sse_process_line\<close>, \<open>sse_scan\<close>,
    \<open>sse_append_frame\<close>, \<open>sse_poll_next\<close>), its refinement of the line-by-line reference
    \<open>sse_reference\<close>, what is read of the text form of events (white space at the ends of values is
    lost), the type of its strings, and the
    comparison with the interpretation of event streams in the HTML standard (\<open>standard_messages\<close>).
  \<^item> \<open>Ndjson\<close>: \<open>NdjsonStream\<close> against \<open>ndjson_reference\<close>.
  \<^item> \<open>Http\<close>, \<open>Transport\<close>, \<open>Service\<close>: requests and responses, body normalization, the plugin
    traits, middleware and the order in which a pipeline runs it.
  \<^item> \<open>BaseService\<close> and \<open>PoolConcurrency\<close>: \<open>handle\<close> alone (\<open>get_session\<close>, \<open>base_handle\<close>), and any number
    of calls interleaved at their awaits as the step relation \<open>pool_step\<close>, with the shard locks of
    the map and an executor of a fixed number of worker threads.  \<open>PoolExecution\<close>: these calls with the
    functions of the service behind them (\<open>live_step\<close>), and one call run alone against \<open>base_handle\<close>.
  \<^item> \<open>Client\<close>, \<open>Responses\<close>: the client, its builders (laws of \<open>http::request::Builder\<close> in
    \<open>builder_laws\<close>) and the methods of responses.
  \<^item> \<open>H3Adapter\<close>, \<open>H3Streams\<close>, \<open>H3Session\<close>: the connection with its cached futures (\<open>cached_poll\<close>),
    the buffered streams, and handshake, request, response body and driver.
  \<^item> \<open>Hyper\<close>: protocol selection, handshake, sending, and the calls that share the mutex of an HTTP/1.1
    sender as the step relation \<open>h1_step\<close>.  \<open>HyperClient\<close>: the product of the pool and these mutexes.
    \<open>HyperRequests\<close>: a request through normalization, pool and Hyper session.
  \<^item> \<open>H3Client\<close>: a request through builder, normalization, pool and HTTP/3 session, against the exchange on
    the stream \<open>h3_exchange\<close>; the locale \<open>frame_future\<close> is awaiting a frame.  \<open>H3Responses\<close>: responses streamed
    from HTTP/3 through the normalization to the two parsers.
  \<^item> \<open>Tokio\<close>, \<open>Iroh\<close>: the transports.  \<open>Mocks\<close>: the mock plugins, as instances of the same interfaces.
    \<open>Fetch\<close>: the requests of the example; \<open>FetchMain\<close>: its \<open>main\<close>, over the transports and plugins.
  \<^item> \<open>ResponseTests\<close>, \<open>RequestTests\<close>: the tests in \<open>tests/response_helpers.rs\<close> and \<open>tests/request_helpers.rs\<close>
    as theorems about the model.
  \<^item> This theory: properties of protocols and transports composed.

  \<^bold>\<open>What is shown.\<close>  The parsers refine references that read the whole input at once, and their round trips
  hold, for every way the body is cut into frames, with \<open>Pending\<close> anywhere; both are total, so no
  index leaves a buffer, and polling them until they end hands out everything.  On
  \<open>conventional\<close> event streams the SSE parser gives what the standard gives, and for each condition of
  \<open>conventional\<close> there is a stream on which it does not.  In the pool, a session of an authority is set up once at a time, a driver is
  spawned exactly once per session, a call that runs alone among the concurrent ones ends exactly as the
  sequential model says, with its answer, pool and world, no lock outlives its set-up even when a call is dropped, and with at least as many workers
  as calls every call that is not dropped is answered; with fewer, a reachable state in which nothing can
  move exists, and all such states are characterised (\<open>deadlock_iff\<close>).  The HTTP/3 streams lose and reorder no byte over any lawful
  writer, bodies are sent chunk by chunk, and it is characterised exactly which bodies arrive whole.
  HTTP/1.1 calls are serialized in order of arrival and none blocks the others for good; pool and mutexes
  together keep the invariants of both, send at most one HTTP/1.1 request to an authority at a time, and
  answer every call.  A request over Hyper reaches hyper with its parts, data and trailers; over HTTP/3 it is
  one exchange on the pooled session whatever its body does, for a text with the calls written out, and events read from an HTTP/3 response are those
  in the bytes of the stream.  Builders set the content type, a request body built from items and parsed again
  gives the items back, and text comes back from a response exactly when it is valid UTF-8.  The transports
  connect to the host, port and key the URI names, and \<open>https\<close> is encrypted when TLS is built in.  A run of the
  example is written out step by step from its arguments to its output, over TCP and over QUIC.

  \<^bold>\<open>Loops.\<close>  Loops over a buffer are structural or over an index list; the loops whose end depends on a foreign
  reader, writer, body or buffer are \<open>partial_function (option)\<close>, so that not returning is the value
  \<open>None\<close>, and the theorems state that a result exists (\<open>fill_content\<close>, \<open>h3_send_body_sends_chunks\<close>,
  \<open>finish_flushes_everything\<close>); \<open>poll_ready_spins\<close> is a case without one.  No fuel is used.

  \<^bold>\<open>Not modelled.\<close>  The tests that run real servers.  Of the example, the parsing of arguments by \<open>clap\<close>; the
  provider of TLS and the Iroh endpoint that it makes are parameters.
  \<open>NeverBuf\<close> of \<open>bound_request.rs\<close> has no values and no definition;
  \<open>never_buf_unreached\<close> shows that its methods are not reached.  Waking (a poll is made whenever the caller makes one) and the memory behaviour of buffers.
\<close>

section \<open>HTTP over the Tokio transport\<close>

text \<open>
  C28: Hyper with automatic protocol selection over the Tokio transport speaks HTTP/2 exactly on
  encrypted streams whose TLS session has negotiated \<open>h2\<close>: a plain \<open>http\<close> request is always sent
  with HTTP/1.1, and so is an \<open>https\<close> request in a build without TLS.
\<close>

theorem hyper_over_tokio_protocol:
  assumes "ha_protocol app = Auto"
    and "tokio_connect N tls self u w = (Inr conn, w1)"
    and "tokio_open_bidirectional N tls conn (hw_world hw) = (Inr io, w2)"
    and "hyper_handshake L prepare (tokio_conn N tls) (tokio_stream N into_split tls_split) app conn hw =
      (Inr (sender, driver), hw')"
  shows "(\<exists>s2. sender = H2 s2) \<longleftrightarrow>
    tls \<and> uri_scheme_str u = Some ''https'' \<and> (\<exists>s. io = TlsIo s \<and> tn_tls_alpn N s = Some h2_name)"
proof -
  have opened: "open_bidirectional (tokio_conn N tls) conn (hw_world hw) = (Inr io, w2)"
    using assms(3) by (simp add: tokio_conn_def)
  have alpn: "tokio_io_alpn N io = Some h2_name \<longleftrightarrow> (\<exists>s. io = TlsIo s \<and> tn_tls_alpn N s = Some h2_name)"
    by (cases io) auto
  have "(\<exists>s2. sender = H2 s2) \<longleftrightarrow> tokio_io_alpn N io = Some h2_name"
    using assms(1,4) unfolding hyper_handshake_opened [OF opened] use_h2_iff
    by (auto simp: tokio_stream_def split: if_splits prod.splits sum.splits)
  moreover have "(\<exists>s. io = TlsIo s) \<longleftrightarrow> tls \<and> uri_scheme_str u = Some ''https''"
    using assms(2,3)
    by (auto simp: tokio_connect_def tokio_open_bidirectional_def io_ok tokio_tls_config_def Let_def split: option.splits if_splits prod.splits)
  ultimately show ?thesis unfolding alpn by blast
qed

theorem hyper_over_tokio_protocol_witness:
  "\<exists>conn w1 sender driver hw'.
     tokio_connect sample_net True (tokio_transport_default sample_net True) (sample_uri (Some ''https'')) [] =
       (Inr conn, w1) \<and>
     hyper_handshake sample_hyper (\<lambda>_. 7) (tokio_conn sample_net True)
       (tokio_stream sample_net (\<lambda>_. ((), ())) (\<lambda>_. ((), ()))) hyper_app_new conn
       \<lparr>hw_mutex = (\<lambda>_. 0), hw_next = 0, hw_world = w1\<rparr> = (Inr (sender, driver), hw') \<and>
     (\<exists>s2. sender = H2 s2)"
proof -
  let ?hw = "\<lparr>hw_mutex = (\<lambda>_. 0), hw_next = 0, hw_world = [''h:443'']\<rparr> :: (nat, string list) hyper_world"
  let ?conn = "\<lparr>tc_addr = ''h:443'', tc_tls_config = Some (default_alpns, ''h'')\<rparr>"
  let ?S = "tokio_stream sample_net (\<lambda>_. ((), ())) (\<lambda>_. ((), ()))"
  have conn: "tokio_connect sample_net True (tokio_transport_default sample_net True)
      (sample_uri (Some ''https'')) [] = (Inr ?conn, [''h:443''])"
    using sample_connect [of True] by simp
  have opened: "tokio_open_bidirectional sample_net True ?conn (hw_world ?hw) = (Inr (TlsIo 1), [''h:443''])"
    by (simp add: tokio_open_bidirectional_def sample_net_def io_run)
  then have opened': "open_bidirectional (tokio_conn sample_net True) ?conn (hw_world ?hw) = (Inr (TlsIo 1), [''h:443''])"
    by (simp add: tokio_conn_def)
  have run: "hyper_handshake sample_hyper (\<lambda>_. 7) (tokio_conn sample_net True) ?S hyper_app_new ?conn ?hw =
      (Inr (H2 7, H2Driver 7), ?hw)"
    unfolding hyper_handshake_opened [OF opened']
    by (simp add: tokio_stream_def sample_net_def sample_hyper_def hyper_app_new_def default_protocol_def h2_name_def)
  have "ha_protocol hyper_app_new = Auto" by (simp add: hyper_app_new_def default_protocol_def)
  from hyper_over_tokio_protocol [OF this conn opened run] conn run show ?thesis
    by (simp add: sample_uri_def sample_net_def h2_name_def)
qed

section \<open>HTTP/3 over the Iroh transport\<close>

text \<open>
  C27: On a bidirectional Iroh stream the HTTP/3 adapter loses and reorders nothing: whatever
  \<open>send_data\<close>, \<open>poll_ready\<close> and \<open>poll_finish\<close> calls are made on the send half that \<open>split\<close> gives out,
  all return, and what the QUIC stream has taken followed by what is buffered is the data, in
  order; the receive half is the one that was opened with it.
\<close>

theorem h3_over_iroh_keeps_data:
  assumes "recording_writer W written" and "buf_laws B content"
  shows "\<exists>s'. send_run no_error B into (iroh_send_write W) ops
      (fst (h3_split (iroh_stream N) (h3_bidi_new \<lparr>ib_send = IrohSendStream q, ib_recv = r\<rparr>))) = Some s' \<and>
    (\<exists>q'. hs_inner s' = IrohSendStream q' \<and>
      written q' @ hs_buf s' = written q @ sent_data (\<lambda>d. content (into d)) ops) \<and>
    hr_inner (snd (h3_split (iroh_stream N) (h3_bidi_new \<lparr>ib_send = IrohSendStream q, ib_recv = r\<rparr>))) = r"
proof -
  let ?written = "\<lambda>s. case s of IrohSendStream q \<Rightarrow> written q"
  from recording_writer.send_run_keeps [OF iroh_send_lawful [OF assms(1)] assms(2), of no_error into ops "h3_send_new (IrohSendStream q)"]
  obtain s' where "send_run no_error B into (iroh_send_write W) ops (h3_send_new (IrohSendStream q)) = Some s'"
      "?written (hs_inner s') @ hs_buf s' = written q @ sent_data (\<lambda>d. content (into d)) ops"
    by (auto simp: h3_send_new_def)
  then show ?thesis
    by (cases "hs_inner s'")
      (auto simp: h3_split_def iroh_stream_def iroh_bidi_split_def h3_bidi_new_def h3_recv_new_def)
qed

theorem h3_over_iroh_keeps_data_witness:
  "\<exists>s'. send_run 256 rope_buf (\<lambda>d. d) (iroh_send_write (pipe_write 1 :: (pipe, nat) async_write))
       [SendData [[1, 2], [3]], PollReady]
       (fst (h3_split (iroh_stream sample_iroh) (h3_bidi_new
          \<lparr>ib_send = IrohSendStream \<lparr>pipe_out = [], pipe_in = [], pipe_pending = 1\<rparr>, ib_recv = IrohRecvStream \<lparr>pipe_out = [], pipe_in = [], pipe_pending = 0\<rparr>\<rparr>))) =
       Some s' \<and>
     (\<exists>q'. hs_inner s' = IrohSendStream q' \<and> pipe_out q' @ hs_buf s' = [1, 2, 3])"
  using h3_over_iroh_keeps_data [OF pipe_w.recording_writer_axioms rope.buf_laws_axioms,
      of 256 "\<lambda>d. d" 1 "[SendData [[1, 2], [3]], PollReady]" sample_iroh
        "\<lparr>pipe_out = [], pipe_in = [], pipe_pending = 1\<rparr>" "IrohRecvStream \<lparr>pipe_out = [], pipe_in = [], pipe_pending = 0\<rparr>"]
  by auto

end
